theory Spec2Isabelle
  imports Complex_Main
begin

section \<open>Python exceptions as values\<close>

text \<open>
  The notebooks are Python. Every exception a modelled statement can raise is a value of
  \<open>exn\<close>; a computation that may raise returns \<open>exn + 'a\<close>, with \<open>Inl\<close> for the raise.
\<close>

datatype exn =
    FileNotFoundError
  | ValueError
  | RuntimeError
  | IndexError
  | ZeroDivisionError
  | NotFittedError

definition bind_exn :: "exn + 'a \<Rightarrow> ('a \<Rightarrow> exn + 'b) \<Rightarrow> exn + 'b" where
  "bind_exn m f = (case m of Inl e \<Rightarrow> Inl e | Inr a \<Rightarrow> f a)"

section \<open>The convolutional network \<open>Net\<close>\<close>

subsection \<open>Layers and tensor shapes\<close>

text \<open>
  A tensor shape is the list of its dimension sizes, \<open>[batch, channels, height, width]\<close>
  for an image batch. The three kinds of layer that \<open>Net.__init__\<close> builds carry the
  arguments the notebook passes; every other argument keeps the default that the notebook's
  markdown quotes (\<open>stride=1, padding=0, dilation=1, bias=True\<close> for \<open>Conv2d\<close>,
  \<open>padding=0, dilation=1, ceil_mode=False\<close> for \<open>MaxPool2d\<close>, \<open>bias=True\<close> for
  \<open>Linear\<close>).
\<close>

type_synonym shape = "nat list"

datatype layer =
    Conv2d nat nat nat
  | MaxPool2d nat nat
  | Linear nat nat

definition conv_stride :: nat where "conv_stride = 1"
definition conv_padding :: nat where "conv_padding = 0"
definition conv_dilation :: nat where "conv_dilation = 1"

text \<open>
  Modelled from the spec: \<open>torch.nn\<close> is a third-party library and is absent from src/.
  The size of one spatial dimension after a convolution or a pooling window of size \<open>k\<close>,
  stride \<open>s\<close>, padding \<open>p\<close> and dilation \<open>d\<close> is
  \<open>floor((n + 2p - d(k - 1) - 1) / s) + 1\<close>, the rule behind the notebook's
  "Tracking Data Through the Network" list; a window larger than the padded input is an
  error.
\<close>

definition window_out :: "nat \<Rightarrow> nat \<Rightarrow> nat \<Rightarrow> nat \<Rightarrow> nat \<Rightarrow> exn + nat" where
  "window_out n k s p d =
     (if s = 0 \<or> k = 0 \<or> n + 2 * p < d * (k - 1) + 1 then Inl RuntimeError
      else Inr ((n + 2 * p - d * (k - 1) - 1) div s + 1))"

text \<open>
  Modelled from the spec: the shape a layer of \<open>torch.nn\<close> returns for an input shape.
  \<open>Conv2d\<close> and \<open>MaxPool2d\<close> take the four-dimensional batches \<open>forward\<close> hands them;
  \<open>Conv2d\<close> raises when the channel count differs from its \<open>in_channels\<close>. \<open>Linear\<close>
  replaces the last dimension and raises when that differs from its \<open>in_features\<close>.
\<close>

fun layer_shape :: "layer \<Rightarrow> shape \<Rightarrow> exn + shape" where
  "layer_shape (Conv2d cin cout k) [b, c, h, w] =
     (if c \<noteq> cin then Inl RuntimeError
      else bind_exn (window_out h k conv_stride conv_padding conv_dilation) (\<lambda>h'.
           bind_exn (window_out w k conv_stride conv_padding conv_dilation) (\<lambda>w'.
           Inr [b, cout, h', w'])))"
| "layer_shape (Conv2d cin cout k) _ = Inl RuntimeError"
| "layer_shape (MaxPool2d k s) [b, c, h, w] =
     bind_exn (window_out h k s 0 1) (\<lambda>h'.
     bind_exn (window_out w k s 0 1) (\<lambda>w'.
     Inr [b, c, h', w']))"
| "layer_shape (MaxPool2d k s) _ = Inl RuntimeError"
| "layer_shape (Linear fin fout) [] = Inl RuntimeError"
| "layer_shape (Linear fin fout) sh =
     (if last sh \<noteq> fin then Inl RuntimeError else Inr (butlast sh @ [fout]))"

text \<open>\<open>F.relu\<close> works elementwise ("ReLu: No change in data").\<close>

definition relu_shape :: "shape \<Rightarrow> exn + shape" where
  "relu_shape sh = Inr sh"

definition numel :: "shape \<Rightarrow> nat" where
  "numel sh = prod_list sh"

text \<open>
  Modelled from the spec: \<open>x.view(-1, n)\<close> of \<open>torch\<close>. The inferred first dimension is
  the element count divided by \<open>n\<close>; the call raises when the division leaves a
  remainder, and when the tensor has no element at all (the \<open>-1\<close> is then ambiguous).
\<close>

definition view_shape :: "nat \<Rightarrow> shape \<Rightarrow> exn + shape" where
  "view_shape n sh =
     (if n = 0 \<or> numel sh = 0 \<or> numel sh mod n \<noteq> 0 then Inl RuntimeError
      else Inr [numel sh div n, n])"

subsection \<open>\<open>class Net(nn.Module)\<close>\<close>

record net =
  conv1 :: layer
  pool :: layer
  conv2 :: layer
  fc1 :: layer
  fc2 :: layer
  fc3 :: layer

text \<open>\<open>Net.__init__\<close>.\<close>

definition Net :: net where
  "Net = \<lparr> conv1 = Conv2d 3 6 5,
           pool = MaxPool2d 2 2,
           conv2 = Conv2d 6 16 5,
           fc1 = Linear (16 * 5 * 5) 120,
           fc2 = Linear 120 84,
           fc3 = Linear 84 10 \<rparr>"

text \<open>\<open>Net.forward\<close>, on shapes: each line of the method is one line here.\<close>

definition forward_shape :: "net \<Rightarrow> shape \<Rightarrow> exn + shape" where
  "forward_shape self x0 =
     bind_exn (bind_exn (bind_exn (layer_shape (conv1 self) x0) relu_shape)
                 (layer_shape (pool self))) (\<lambda>x1.
     bind_exn (bind_exn (bind_exn (layer_shape (conv2 self) x1) relu_shape)
                 (layer_shape (pool self))) (\<lambda>x2.
     bind_exn (view_shape (16 * 5 * 5) x2) (\<lambda>x3.
     bind_exn (bind_exn (layer_shape (fc1 self) x3) relu_shape) (\<lambda>x4.
     bind_exn (bind_exn (layer_shape (fc2 self) x4) relu_shape) (\<lambda>x5.
     layer_shape (fc3 self) x5)))))"

subsection \<open>Counting the parameters\<close>

record parameter =
  param_size :: shape
  requires_grad :: bool

text \<open>
  Modelled from the spec: the parameters a layer of \<open>torch.nn\<close> registers, in the order
  weight, bias. A convolution holds one \<open>in \<times> k \<times> k\<close> filter per output channel, a linear
  layer an \<open>out \<times> in\<close> matrix, each with one bias per output; pooling holds none. A new
  parameter is trainable.
\<close>

fun layer_parameters :: "layer \<Rightarrow> parameter list" where
  "layer_parameters (Conv2d cin cout k) =
     [\<lparr>param_size = [cout, cin, k, k], requires_grad = True\<rparr>,
      \<lparr>param_size = [cout], requires_grad = True\<rparr>]"
| "layer_parameters (MaxPool2d k s) = []"
| "layer_parameters (Linear fin fout) =
     [\<lparr>param_size = [fout, fin], requires_grad = True\<rparr>,
      \<lparr>param_size = [fout], requires_grad = True\<rparr>]"

text \<open>\<open>net.parameters()\<close>: the layers in the order \<open>__init__\<close> assigns them.\<close>

definition parameters :: "net \<Rightarrow> parameter list" where
  "parameters self =
     concat (map layer_parameters
       [conv1 self, pool self, conv2 self, fc1 self, fc2 self, fc3 self])"

text \<open>\<open>sum(p.numel() for p in net.parameters() if p.requires_grad)\<close>.\<close>

definition trainable_parameter_count :: "net \<Rightarrow> int" where
  "trainable_parameter_count self =
     sum_list (map (\<lambda>p. int (numel (param_size p))) (filter requires_grad (parameters self)))"

text \<open>The cell that adds the numbers by hand.\<close>

definition hand_written_count :: int where
  "hand_written_count =
     6*3*5*5 + 6 + 16*6*5*5 + 16 + 120*400 + 120 + 84*120 + 84 + 10*84 + 10"

section \<open>Images: \<open>transforms.Normalize\<close> and \<open>imshow\<close>\<close>

subsection \<open>\<open>float32\<close> arithmetic\<close>

text \<open>
  Modelled from the spec: the image tensors are \<open>torch.float32\<close>, and their arithmetic
  is library code absent from src/. Every elementwise operation returns the exact result
  rounded to the nearest binary32 number, ties to the even significand (IEEE 754): 24
  significant bits, exponents from \<open>-126\<close> to \<open>127\<close>, and below \<open>2^-126\<close> the
  fixed spacing \<open>2^-149\<close> of the subnormal numbers. A finite binary32 number is modelled
  as the real number it is, and \<open>x\<close> is a binary32 number when \<open>fl32 x = x\<close>.
  Infinities and NaN are not modelled: \<open>fl32\<close> is the rounding of results below
  \<open>2^128\<close> in magnitude, which all pixel arithmetic here is.
\<close>

definition pow2 :: "int \<Rightarrow> real" where
  "pow2 e = (if 0 \<le> e then 2 ^ nat e else 1 / 2 ^ nat (- e))"

text \<open>
  The binary exponent of \<open>x\<close>: the greatest \<open>e\<close> from \<open>s\<close> downwards with
  \<open>2^e \<le> |x|\<close>, and \<open>-126\<close> for every smaller \<open>x\<close>.
\<close>

function expo_from :: "int \<Rightarrow> real \<Rightarrow> int" where
  "expo_from e x =
     (if e \<le> - 126 then - 126
      else if pow2 e \<le> \<bar>x\<bar> then e
      else expo_from (e - 1) x)"
  by pat_completeness auto
termination
  by (relation "measure (\<lambda>(e, x). nat (e + 126))") auto

declare expo_from.simps [simp del]

definition expo32 :: "real \<Rightarrow> int" where
  "expo32 x = expo_from 127 x"

text \<open>Rounding to the nearest integer, a tie going to the even one.\<close>

definition round_even :: "real \<Rightarrow> int" where
  "round_even y =
     (let f = \<lfloor>y\<rfloor>; r = y - of_int f
      in if r < 1 / 2 then f
         else if 1 / 2 < r then f + 1
         else if even f then f else f + 1)"

text \<open>Rounding to binary32: to the nearest multiple of the spacing \<open>2^(e - 23)\<close>.\<close>

definition fl32 :: "real \<Rightarrow> real" where
  "fl32 x = (let q = pow2 (expo32 x - 23) in q * of_int (round_even (x / q)))"

subsection \<open>The image transforms\<close>

text \<open>
  An image tensor is \<open>channels \<times> height \<times> width\<close>, a list of channels, each a list of
  rows, of \<open>float32\<close> pixel values.
\<close>

type_synonym image = "real list list list"

definition image_wf :: "nat \<Rightarrow> nat \<Rightarrow> nat \<Rightarrow> image \<Rightarrow> bool" where
  "image_wf C H W img \<longleftrightarrow>
     length img = C \<and> (\<forall>ch \<in> set img. length ch = H \<and> (\<forall>row \<in> set ch. length row = W))"

text \<open>
  Modelled from the spec: \<open>torchvision.transforms.Normalize(mean, std)\<close> is library code
  absent from src/. It maps each pixel \<open>x\<close> of channel \<open>c\<close> to \<open>(x - mean[c]) / std[c]\<close>,
  a subtraction and a division in \<open>float32\<close>, and raises when the image has not one
  channel per entry of \<open>mean\<close> and \<open>std\<close>.
\<close>

definition normalize_pixel :: "real \<Rightarrow> real \<Rightarrow> real \<Rightarrow> real" where
  "normalize_pixel m s x = fl32 (fl32 (x - fl32 m) / fl32 s)"

definition Normalize :: "real list \<Rightarrow> real list \<Rightarrow> image \<Rightarrow> exn + image" where
  "Normalize mean std img =
     (if length img \<noteq> length mean \<or> length img \<noteq> length std then Inl RuntimeError
      else Inr (map (\<lambda>(ch, m, s). map (map (normalize_pixel m s)) ch) (zip img (zip mean std))))"

text \<open>The \<open>Normalize\<close> stage of the notebook's \<open>transform\<close>.\<close>

definition transform_normalize :: "image \<Rightarrow> exn + image" where
  "transform_normalize = Normalize [0.5, 0.5, 0.5] [0.5, 0.5, 0.5]"

text \<open>
  Modelled from the spec: \<open>np.transpose\<close> is library code absent from src/.
  \<open>np.transpose(npimg, (1, 2, 0))\<close> moves the channel axis last: entry \<open>[h][w][c]\<close>
  of the result is \<open>npimg[c][h][w]\<close>.
\<close>

definition np_transpose_120 :: "image \<Rightarrow> image" where
  "np_transpose_120 npimg =
     (let C = length npimg;
          H = (case npimg of [] \<Rightarrow> 0 | ch # _ \<Rightarrow> length ch);
          W = (case npimg of [] \<Rightarrow> 0 | ch # _ \<Rightarrow> (case ch of [] \<Rightarrow> 0 | row # _ \<Rightarrow> length row))
      in map (\<lambda>h. map (\<lambda>w. map (\<lambda>c. npimg ! c ! h ! w) [0..<C]) [0..<W]) [0..<H])"

text \<open>
  The first line of \<open>imshow\<close>, \<open>img = img / 2 + 0.5\<close>, on one pixel: a division and an
  addition in \<open>float32\<close>.
\<close>

definition unnormalize_pixel :: "real \<Rightarrow> real" where
  "unnormalize_pixel x = fl32 (fl32 (x / 2) + 0.5)"

text \<open>
  \<open>imshow(img)\<close>: un-normalize, transpose, and hand the array to \<open>plt.imshow\<close>. The value
  is the array that is drawn.
\<close>

definition imshow :: "image \<Rightarrow> image" where
  "imshow img0 =
     (let img = map (map (map unnormalize_pixel)) img0;
          npimg = img
      in np_transpose_120 npimg)"

section \<open>Predicted classes\<close>

text \<open>
  Modelled from the spec: \<open>np.argmax\<close> and \<open>torch.max\<close> are library code absent from
  src/. \<open>np.argmax\<close> of a one-dimensional array is the index of its greatest entry, the
  first one when several are equal; an empty array raises \<open>ValueError\<close>. The scan keeps
  the best index and value seen so far.
\<close>

fun argmax_scan :: "nat \<Rightarrow> 'a::linorder \<Rightarrow> nat \<Rightarrow> 'a list \<Rightarrow> nat" where
  "argmax_scan best v i [] = best"
| "argmax_scan best v i (x # xs) =
     (if v < x then argmax_scan i x (Suc i) xs else argmax_scan best v (Suc i) xs)"

definition np_argmax :: "'a::linorder list \<Rightarrow> exn + nat" where
  "np_argmax xs = (case xs of [] \<Rightarrow> Inl ValueError | x # rest \<Rightarrow> Inr (argmax_scan 0 x 1 rest))"

text \<open>Running a fallible function over a list, stopping at the first raise.\<close>

fun traverse :: "('a \<Rightarrow> exn + 'b) \<Rightarrow> 'a list \<Rightarrow> exn + 'b list" where
  "traverse f [] = Inr []"
| "traverse f (x # xs) =
     bind_exn (f x) (\<lambda>y. bind_exn (traverse f xs) (\<lambda>ys. Inr (y # ys)))"

text \<open>
  Modelled from the spec: \<open>torch.max(outputs, 1)\<close> returns, for each row of a
  two-dimensional tensor, its greatest value and the index of that value.
\<close>

definition torch_max_dim1 :: "'a::linorder list list \<Rightarrow> exn + ('a list \<times> nat list)" where
  "torch_max_dim1 outputs =
     bind_exn (traverse (\<lambda>row. case np_argmax row of
                                   Inl e \<Rightarrow> Inl RuntimeError
                                 | Inr k \<Rightarrow> Inr (row ! k, k)) outputs)
       (\<lambda>vks. Inr (map fst vks, map snd vks))"

text \<open>
  One line of the table the tabular notebook prints: the arguments handed to \<open>format\<close>,
  \<open>x_predict[i,0]\<close>, \<open>x_predict[i,1]\<close>, \<open>np.argmax(x_predict[i,:])\<close> and \<open>y_test[i]\<close>.
  An index past the end of either array raises \<open>IndexError\<close>.
\<close>

definition print_row :: "'a::linorder list list \<Rightarrow> nat list \<Rightarrow> nat \<Rightarrow> exn + ('a \<times> 'a \<times> nat \<times> nat)" where
  "print_row x_predict y_test i =
     (if length x_predict \<le> i then Inl IndexError
      else if length (x_predict ! i) \<le> 1 then Inl IndexError
      else bind_exn (np_argmax (x_predict ! i)) (\<lambda>pc.
           if length y_test \<le> i then Inl IndexError
           else Inr (x_predict ! i ! 0, x_predict ! i ! 1, pc, y_test ! i)))"

text \<open>\<open>for i in range(10): print(...)\<close>.\<close>

definition print_predictions :: "'a::linorder list list \<Rightarrow> nat list \<Rightarrow> exn + ('a \<times> 'a \<times> nat \<times> nat) list" where
  "print_predictions x_predict y_test = traverse (print_row x_predict y_test) [0..<10]"

text \<open>
  The CNN notebook's \<open>_, predicted = torch.max(outputs, 1)\<close>.
\<close>

definition predicted_labels :: "'a::linorder list list \<Rightarrow> exn + nat list" where
  "predicted_labels outputs = bind_exn (torch_max_dim1 outputs) (\<lambda>(_, predicted). Inr predicted)"

section \<open>The tabular notebook: scaling the features\<close>

text \<open>
  A data matrix is \<open>N \<times> d\<close>, a list of \<open>N\<close> rows of \<open>d\<close> features; \<open>X[:, j]\<close> is
  \<open>column j X\<close>. Entries are real numbers: rounding in \<open>float64\<close> is outside the model.
\<close>

type_synonym matrix = "real list list"

definition matrix_wf :: "nat \<Rightarrow> matrix \<Rightarrow> bool" where
  "matrix_wf d X \<longleftrightarrow> X \<noteq> [] \<and> (\<forall>row \<in> set X. length row = d)"

definition column :: "nat \<Rightarrow> matrix \<Rightarrow> real list" where
  "column j X = map (\<lambda>row. row ! j) X"

definition n_features :: "matrix \<Rightarrow> nat" where
  "n_features X = (case X of [] \<Rightarrow> 0 | row # _ \<Rightarrow> length row)"

text \<open>The mean, the variance and the standard deviation of one feature over the samples.\<close>

definition mean :: "real list \<Rightarrow> real" where
  "mean xs = sum_list xs / real (length xs)"

definition variance :: "real list \<Rightarrow> real" where
  "variance xs = sum_list (map (\<lambda>x. (x - mean xs)\<^sup>2) xs) / real (length xs)"

definition std :: "real list \<Rightarrow> real" where
  "std xs = sqrt (variance xs)"

text \<open>
  The scaler object. \<open>stats\<close> holds the per-feature means and standard deviations once
  \<open>fit\<close> has run; \<open>calls\<close> records the method calls made on the object, in order.
\<close>

datatype scaler_call = Fit matrix | Transform matrix

record scaler =
  stats :: "(real list \<times> real list) option"
  calls :: "scaler_call list"

definition StandardScaler :: scaler where
  "StandardScaler = \<lparr> stats = None, calls = [] \<rparr>"

text \<open>
  Modelled from the spec: \<open>sklearn.preprocessing.StandardScaler\<close> is library code absent
  from src/. \<open>fit\<close> stores, for every feature, the mean \<open>\<mu>\<^sub>i\<close> and the standard
  deviation \<open>\<sigma>\<^sub>i\<close> of its column, as the notebook's markdown describes; a matrix without
  rows raises \<open>ValueError\<close>.
\<close>

definition fit :: "scaler \<Rightarrow> matrix \<Rightarrow> exn + scaler" where
  "fit self X =
     (if X = [] then Inl ValueError
      else Inr (self \<lparr> stats := Some (map (\<lambda>j. mean (column j X)) [0..<n_features X],
                                      map (\<lambda>j. std (column j X)) [0..<n_features X]),
                       calls := calls self @ [Fit X] \<rparr>))"

text \<open>The markdown's formula \<open>x\<^sub>i' = (x\<^sub>i - \<mu>\<^sub>i) / \<sigma>\<^sub>i\<close>, on one row.\<close>

definition scale_row :: "real list \<Rightarrow> real list \<Rightarrow> real list \<Rightarrow> real list" where
  "scale_row mu sigma row = map (\<lambda>(x, m, s). (x - m) / s) (zip row (zip mu sigma))"

text \<open>
  Modelled from the spec: \<open>StandardScaler.transform\<close> applies the stored statistics to
  every row. It raises \<open>NotFittedError\<close> before any \<open>fit\<close>, and \<open>ValueError\<close> on a
  matrix without rows or with another number of features than the fitted one. The formula
  is the markdown's; where a \<open>\<sigma>\<^sub>i\<close> is zero the formula says nothing, and the results
  below that speak of values assume it is not.
\<close>

definition transform :: "scaler \<Rightarrow> matrix \<Rightarrow> exn + (scaler \<times> matrix)" where
  "transform self X =
     (case stats self of
        None \<Rightarrow> Inl NotFittedError
      | Some (mu, sigma) \<Rightarrow>
          if X = [] \<or> (\<exists>row \<in> set X. length row \<noteq> length mu) then Inl ValueError
          else Inr (self \<lparr> calls := calls self @ [Transform X] \<rparr>,
                    map (scale_row mu sigma) X))"

text \<open>
  The scaling cell:
  \<^verbatim>\<open>
  scaler = StandardScaler()
  scaler.fit(X_train)
  X_train = scaler.transform(X_train)
  X_test = scaler.transform(X_test)
  \<close>
  The result is the scaler and the two rebound variables.
\<close>

definition scaling_cell :: "matrix \<Rightarrow> matrix \<Rightarrow> exn + (scaler \<times> matrix \<times> matrix)" where
  "scaling_cell X_train X_test =
     (let scaler = StandardScaler in
      bind_exn (fit scaler X_train) (\<lambda>scaler.
      bind_exn (transform scaler X_train) (\<lambda>(scaler, X_train').
      bind_exn (transform scaler X_test) (\<lambda>(scaler, X_test').
      Inr (scaler, X_train', X_test')))))"

section \<open>The CNN notebook: class-by-class accuracy\<close>

text \<open>
  A dataset is a list of samples, each an image with its class label. The loader holds
  the arguments the notebook passes to \<open>torch.utils.data.DataLoader\<close>.
\<close>

record 'a dataloader =
  dataset :: "'a list"
  batch_size :: nat
  shuffle :: bool
  num_workers :: nat

definition DataLoader :: "'a list \<Rightarrow> nat \<Rightarrow> bool \<Rightarrow> nat \<Rightarrow> 'a dataloader" where
  "DataLoader ds bs sh nw = \<lparr> dataset = ds, batch_size = bs, shuffle = sh, num_workers = nw \<rparr>"

text \<open>\<open>testloader\<close>, over a given test set.\<close>

definition testloader :: "'a list \<Rightarrow> 'a dataloader" where
  "testloader testset = DataLoader testset 4 False 2"

text \<open>
  The size of the CIFAR-10 test set, as the notebook's own print statement has it
  ("Accuracy of the network on the 10000 test images"). The data themselves are fetched
  by the library and are not in src/.
\<close>

definition test_images :: nat where
  "test_images = 10000"

text \<open>
  Modelled from the spec: iterating a \<open>DataLoader\<close> of \<open>torch\<close> (library code absent
  from src/) without shuffling yields the samples in dataset order, \<open>batch_size\<close> at a
  time; the last batch holds what is left, so it is shorter when the batch size does not
  divide the number of samples (\<open>drop_last\<close> keeps its default, \<open>False\<close>).
\<close>

fun batches :: "nat \<Rightarrow> 'a list \<Rightarrow> 'a list list" where
  "batches n xs = (if n = 0 \<or> xs = [] then [] else take n xs # batches n (drop n xs))"

declare batches.simps [simp del]

definition loader_batches :: "'a dataloader \<Rightarrow> 'a list list" where
  "loader_batches dl = batches (batch_size dl) (dataset dl)"

text \<open>The tuple \<open>classes\<close>.\<close>

definition classes :: "string list" where
  "classes = [''plane'', ''car'', ''bird'', ''cat'',
              ''deer'', ''dog'', ''frog'', ''horse'', ''ship'', ''truck'']"

text \<open>A loop over a list that threads a state and stops at the first raise.\<close>

fun foldM :: "('s \<Rightarrow> 'a \<Rightarrow> exn + 's) \<Rightarrow> 'a list \<Rightarrow> 's \<Rightarrow> exn + 's" where
  "foldM f [] s = Inr s"
| "foldM f (x # xs) s = bind_exn (f s x) (foldM f xs)"

text \<open>
  Modelled from the spec: tensor indexing and \<open>squeeze\<close> are \<open>torch\<close> library code
  absent from src/. The value is \<open>c[i].item()\<close> for
  \<open>c = (predicted == labels).squeeze()\<close>. \<open>squeeze\<close> drops a dimension of size one,
  so for a batch of one sample \<open>c\<close> has no dimension left and indexing it raises;
  otherwise the index must be below the batch size.
\<close>

definition squeeze_item :: "bool list \<Rightarrow> nat \<Rightarrow> exn + bool" where
  "squeeze_item c i =
     (if length c = 1 then Inl IndexError
      else if length c \<le> i then Inl IndexError
      else Inr (c ! i))"

text \<open>
  The body of \<open>for i in range(4)\<close>:
  \<^verbatim>\<open>
  label = labels[i]
  class_correct[label] += c[i].item()
  class_total[label] += 1
  \<close>
  The two counters are Python lists of floats; they hold whole numbers only.
\<close>

definition count_sample ::
  "nat list \<Rightarrow> bool list \<Rightarrow> real list \<times> real list \<Rightarrow> nat \<Rightarrow> exn + (real list \<times> real list)" where
  "count_sample labels c st i =
     (case st of (class_correct, class_total) \<Rightarrow>
        if length labels \<le> i then Inl IndexError
        else let label = labels ! i in
          if length class_correct \<le> label then Inl IndexError
          else bind_exn (squeeze_item c i) (\<lambda>ci.
            let class_correct = class_correct[label := class_correct ! label + (if ci then 1 else 0)]
            in if length class_total \<le> label then Inl IndexError
               else Inr (class_correct, class_total[label := class_total ! label + 1])))"

text \<open>
  The body of \<open>for data in testloader\<close>. The trained network is a parameter: \<open>net img\<close>
  is the row of scores \<open>net\<close> returns for one image.
\<close>

definition count_batch ::
  "('img \<Rightarrow> real list) \<Rightarrow> real list \<times> real list \<Rightarrow> ('img \<times> nat) list \<Rightarrow> exn + (real list \<times> real list)" where
  "count_batch net st data =
     (let images = map fst data;
          labels = map snd data;
          outputs = map net images
      in bind_exn (predicted_labels outputs) (\<lambda>predicted.
         let c = map2 (=) predicted labels
         in foldM (count_sample labels c) [0..<4] st))"

text \<open>The first loop of the cell, from the two lists of ten zeros.\<close>

definition class_counts ::
  "('img \<Rightarrow> real list) \<Rightarrow> ('img \<times> nat) list \<Rightarrow> exn + (real list \<times> real list)" where
  "class_counts net testset =
     foldM (count_batch net) (loader_batches (testloader testset))
       (replicate 10 0, replicate 10 0)"

text \<open>
  The second loop: the class name and the accuracy handed to the format string, for each
  of the ten classes. Dividing a Python float by zero raises \<open>ZeroDivisionError\<close>.
\<close>

definition class_accuracy :: "real list \<times> real list \<Rightarrow> nat \<Rightarrow> exn + (string \<times> real)" where
  "class_accuracy st i =
     (case st of (class_correct, class_total) \<Rightarrow>
        if length classes \<le> i \<or> length class_correct \<le> i \<or> length class_total \<le> i
        then Inl IndexError
        else if class_total ! i = 0 then Inl ZeroDivisionError
        else Inr (classes ! i, 100 * class_correct ! i / class_total ! i))"

definition class_report ::
  "('img \<Rightarrow> real list) \<Rightarrow> ('img \<times> nat) list \<Rightarrow> exn + (string \<times> real) list" where
  "class_report net testset =
     bind_exn (class_counts net testset) (\<lambda>st. traverse (class_accuracy st) [0..<10])"

section \<open>Cells, their output and the file system\<close>

text \<open>
  What running a notebook cell does to the world outside the kernel: the files on disk,
  and what the notebook shows under the cell (printed text, the echoed value of a trailing
  expression, an inline figure, a warning).
\<close>

type_synonym path = string

datatype warning = ConvergenceWarning | UserWarning

datatype cell_output = Stdout | Display | Figure | Stderr warning

record world =
  files :: "path set"
  shown :: "cell_output list"

text \<open>
  The statements of a cell, by what they do to the world. \<open>Lib\<close> is an assignment, a
  definition or a library call that neither touches a file nor shows anything; the string
  names the source statement. Loops are unrolled: a cell is the list of the statements it
  executes, in order.
\<close>

datatype stmt =
    Lib string
  | Print string
  | Echo string
  | Plot string
  | ReadCsv path
  | CIFAR10 path bool bool

text \<open>
  What a call does on one occasion is not decided by the notebook: it raises, or it
  returns, possibly after issuing warnings. The answer of the \<open>k\<close>-th statement a cell
  executes is a parameter of the run.
\<close>

datatype answer = Raises exn | Returns "warning list"

text \<open>
  Modelled from the spec: \<open>torchvision.datasets.CIFAR10\<close> is library code absent from
  src/ ("a standard image-classification benchmark fetched automatically by library
  tooling"). It looks for the extracted batch files under \<open>root\<close>; with
  \<open>download=True\<close> and the files missing it stores the archive under \<open>root\<close> and
  extracts it there, and with \<open>download=False\<close> and the files missing it raises.
\<close>

definition cifar_batch_files :: "path \<Rightarrow> path set" where
  "cifar_batch_files rootdir =
     {rootdir @ ''cifar-10-batches-py/data_batch_1'',
      rootdir @ ''cifar-10-batches-py/data_batch_2'',
      rootdir @ ''cifar-10-batches-py/data_batch_3'',
      rootdir @ ''cifar-10-batches-py/data_batch_4'',
      rootdir @ ''cifar-10-batches-py/data_batch_5'',
      rootdir @ ''cifar-10-batches-py/test_batch''}"

definition cifar_files :: "path \<Rightarrow> path set" where
  "cifar_files rootdir =
     insert (rootdir @ ''cifar-10-python.tar.gz'')
       (insert (rootdir @ ''cifar-10-batches-py/batches.meta'') (cifar_batch_files rootdir))"

definition cifar_present :: "path \<Rightarrow> world \<Rightarrow> bool" where
  "cifar_present rootdir w \<longleftrightarrow> cifar_batch_files rootdir \<subseteq> files w"

text \<open>
  A failure that the world decides: \<open>pd.read_csv\<close> on a path that is not there, and
  \<open>CIFAR10\<close> without download on a disk without the data.
\<close>

fun intrinsic :: "stmt \<Rightarrow> world \<Rightarrow> exn option" where
  "intrinsic (ReadCsv p) w = (if p \<in> files w then None else Some FileNotFoundError)"
| "intrinsic (CIFAR10 rootdir train download) w =
     (if \<not> download \<and> \<not> cifar_present rootdir w then Some RuntimeError else None)"
| "intrinsic _ w = None"

definition show_output :: "cell_output \<Rightarrow> world \<Rightarrow> world" where
  "show_output out w = w \<lparr> shown := shown w @ [out] \<rparr>"

fun effect :: "stmt \<Rightarrow> world \<Rightarrow> world" where
  "effect (Lib _) w = w"
| "effect (Print _) w = show_output Stdout w"
| "effect (Echo _) w = show_output Display w"
| "effect (Plot _) w = show_output Figure w"
| "effect (ReadCsv _) w = w"
| "effect (CIFAR10 rootdir train download) w =
     (if cifar_present rootdir w then show_output Stdout w
      else show_output Stdout (w \<lparr> files := files w \<union> cifar_files rootdir \<rparr>))"

text \<open>
  One statement: a raise leaves the world as it is and yields the exception; a warning
  is shown and the statement goes on.
\<close>

definition exec :: "(nat \<Rightarrow> answer) \<Rightarrow> nat \<Rightarrow> stmt \<Rightarrow> world \<Rightarrow> world \<times> exn option" where
  "exec lib k s w =
     (case intrinsic s w of
        Some e \<Rightarrow> (w, Some e)
      | None \<Rightarrow>
          (case lib k of
             Raises e \<Rightarrow> (w, Some e)
           | Returns ws \<Rightarrow> (effect s (w \<lparr> shown := shown w @ map Stderr ws \<rparr>), None)))"

text \<open>
  A cell: its statements in order, from the \<open>k\<close>-th on. No cell of either notebook has
  a \<open>try\<close>, so the first exception ends the cell.
\<close>

fun run :: "(nat \<Rightarrow> answer) \<Rightarrow> nat \<Rightarrow> stmt list \<Rightarrow> world \<Rightarrow> world \<times> exn option" where
  "run lib k [] w = (w, None)"
| "run lib k (s # ss) w =
     (case exec lib k s w of
        (w', Some e) \<Rightarrow> (w', Some e)
      | (w', None) \<Rightarrow> run lib (Suc k) ss w')"

definition run_cell :: "(nat \<Rightarrow> answer) \<Rightarrow> stmt list \<Rightarrow> world \<Rightarrow> world \<times> exn option" where
  "run_cell lib cell w = run lib 0 cell w"

definition repeat :: "nat \<Rightarrow> 'a list \<Rightarrow> 'a list" where
  "repeat n body = concat (replicate n body)"

subsection \<open>The cells of the tabular notebook\<close>

definition tab_imports :: "stmt list" where
  "tab_imports =
     [Lib ''import matplotlib.pyplot as plt'',
      Lib ''from matplotlib.colors import ListedColormap'',
      Lib ''import numpy as np'',
      Lib ''import pandas as pd'',
      Lib ''import os'',
      Lib ''from sklearn import preprocessing'',
      Lib ''from sklearn.preprocessing import StandardScaler'',
      Lib ''from sklearn.model_selection import train_test_split, cross_val_score'',
      Lib ''from sklearn.neural_network import MLPClassifier'',
      Lib ''from sklearn.metrics import roc_curve, roc_auc_score'',
      Lib ''%matplotlib inline'',
      Lib ''FIGSIZE = (10, 6)'',
      Lib ''FIGDPI = 200'',
      Lib ''NPTS = 200'',
      Lib ''cmap = plt.rcParams[...]'',
      Lib ''np.random.seed(100)'']"

definition tab_load :: "stmt list" where
  "tab_load =
     [Lib ''DATAPATH = os.path.join(data.csv)'',
      ReadCsv ''data.csv'',
      Echo ''df.head()'']"

definition tab_features :: "stmt list" where
  "tab_features =
     [Lib ''X1 = np.array(df.texture_mean)'',
      Lib ''X2 = np.array(df.radius_mean)'',
      Lib ''X = np.transpose(np.vstack((X1, X2)))'']"

definition tab_labels :: "stmt list" where
  "tab_labels =
     [Lib ''le = preprocessing.LabelEncoder()'',
      Lib ''le.fit([B, M])'',
      Lib ''y = le.transform(df.diagnosis)'']"

definition tab_split :: "stmt list" where
  "tab_split = [Lib ''X_train, X_test, y_train, y_test = train_test_split(X, y, test_size=.3)'']"

definition tab_scale :: "stmt list" where
  "tab_scale =
     [Lib ''scaler = StandardScaler()'',
      Lib ''scaler.fit(X_train)'',
      Lib ''X_train = scaler.transform(X_train)'',
      Lib ''X_test = scaler.transform(X_test)'']"

definition tab_classifier :: "stmt list" where
  "tab_classifier = [Lib ''clf = MLPClassifier(...)'']"

definition tab_fit :: "stmt list" where
  "tab_fit = [Echo ''clf.fit(X_train, y_train)'']"

definition tab_cross_val :: "stmt list" where
  "tab_cross_val =
     [Lib ''scores = cross_val_score(clf, X_train, y_train, cv=3)'',
      Print ''Accuracy'']"

definition tab_predict :: "stmt list" where
  "tab_predict = [Lib ''x_predict = clf.predict_proba(X_test)'']"

definition tab_print :: "stmt list" where
  "tab_print = [Print ''P1 P2 Pc Label''] @ repeat 10 [Print ''row i'']"

definition tab_roc :: "stmt list" where
  "tab_roc =
     [Lib ''fpr, tpr, thresholds = roc_curve(y_test, x_predict[:,1])'',
      Lib ''auc = roc_auc_score(y_test, x_predict[:,1])'']"

definition tab_roc_plot :: "stmt list" where
  "tab_roc_plot =
     [Lib ''f, ax = plt.subplots(figsize=(6,6))'',
      Lib ''plt.plot(fpr, tpr, ...)'',
      Lib ''plt.plot(np.linspace(0,1), np.linspace(0,1), ...)'',
      Lib ''ax.legend(...)'',
      Lib ''ax.set(...)'',
      Lib ''ax.grid(...)'',
      Lib ''plt.tight_layout()'',
      Plot ''plt.show()'']"

definition tab_contour :: "stmt list" where
  "tab_contour =
     [Lib ''h = .02'',
      Lib ''cm = plt.cm.RdBu_r'',
      Lib ''cm_bright = ListedColormap(...)'',
      Lib ''x_min, x_max = ...'',
      Lib ''y_min, y_max = ...'',
      Lib ''xx, yy = np.meshgrid(...)'',
      Lib ''Z = clf.decision_function(...) or clf.predict_proba(...)[:, 1]'',
      Lib ''f, ax = plt.subplots(figsize=FIGSIZE)'',
      Lib ''Z = Z.reshape(xx.shape)'',
      Lib ''ax.contourf(...)'',
      Lib ''ax.scatter(... Benign)'',
      Lib ''ax.scatter(... Malignant)'',
      Lib ''ax.legend(...)'',
      Lib ''ax.set(...)'',
      Lib ''ax.grid(...)'',
      Plot ''the open figure, drawn inline when the cell ends'']"

definition tabular_cells :: "stmt list list" where
  "tabular_cells =
     [tab_imports, tab_load, tab_features, tab_labels, tab_split, tab_scale,
      tab_classifier, tab_fit, tab_cross_val, tab_predict, tab_print, tab_roc,
      tab_roc_plot, tab_contour]"

subsection \<open>The cells of the CNN notebook\<close>

text \<open>
  The training and evaluation loops run once per batch of their loader; the numbers of
  training and test batches are parameters.
\<close>

definition cnn_imports :: "stmt list" where
  "cnn_imports =
     [Lib ''import torch'',
      Lib ''import torch.nn as nn'',
      Lib ''import torch.nn.functional as F'',
      Lib ''import torch.optim as optim'',
      Lib ''import torchvision'',
      Lib ''import torchvision.transforms as transforms'',
      Lib ''import matplotlib.pyplot as plt'',
      Lib ''import numpy as np'']"

definition cnn_net :: "stmt list" where
  "cnn_net = [Lib ''class Net(nn.Module)'', Lib ''net = Net()'']"

definition cnn_named_parameters :: "stmt list" where
  "cnn_named_parameters =
     [Print ''Name: Parameters Size:'', Print ''----- ----------------'']
     @ repeat (length (parameters Net)) [Print ''name, param.size()'']"

definition cnn_hand_count :: "stmt list" where
  "cnn_hand_count = [Echo ''6*3*5*5 + 6 + 16*6*5*5 + 16 + 120*400 + 120 + 84*120 + 84 + 10*84 + 10'']"

definition cnn_count :: "stmt list" where
  "cnn_count = [Print ''Total number of trainable parameters'']"

definition cnn_print_parameters :: "stmt list" where
  "cnn_print_parameters =
     repeat (length (filter requires_grad (parameters Net))) [Print ''param'']"

definition cnn_transform :: "stmt list" where
  "cnn_transform = [Lib ''transform = transforms.Compose([ToTensor(), Normalize(...)])'']"

definition cnn_datasets :: "stmt list" where
  "cnn_datasets =
     [CIFAR10 ''./'' True True,
      Lib ''trainloader = DataLoader(trainset, batch_size=4, shuffle=True, num_workers=2)'',
      CIFAR10 ''./'' False True,
      Lib ''testloader = DataLoader(testset, batch_size=4, shuffle=False, num_workers=2)'',
      Lib ''classes = (plane, car, bird, cat, deer, dog, frog, horse, ship, truck)'']"

definition cnn_def_imshow :: "stmt list" where
  "cnn_def_imshow = [Lib ''def imshow(img)'']"

text \<open>The statements a call of \<open>imshow\<close> executes.\<close>

definition imshow_body :: "stmt list" where
  "imshow_body =
     [Lib ''img = img / 2 + 0.5'',
      Lib ''npimg = img.numpy()'',
      Lib ''plt.imshow(np.transpose(npimg, (1, 2, 0)))'',
      Plot ''plt.show()'']"

definition cnn_first_batch :: "stmt list" where
  "cnn_first_batch =
     [Lib ''dataiter = iter(trainloader)'',
      Lib ''images, labels = dataiter.next()'',
      Print ''Size of the image batch'',
      Print ''Size of the labels batch'']"

definition cnn_show_batch :: "stmt list" where
  "cnn_show_batch =
     [Lib ''torchvision.utils.make_grid(images, pad_value=1)''] @ imshow_body
     @ [Print ''labels'']"

definition cnn_criterion :: "stmt list" where
  "cnn_criterion = [Lib ''criterion = nn.CrossEntropyLoss()'']"

definition cnn_optimizer :: "stmt list" where
  "cnn_optimizer = [Lib ''optimizer = optim.SGD(net.parameters(), lr=0.001, momentum=0.9)'']"

definition train_step :: "nat \<Rightarrow> stmt list" where
  "train_step i =
     [Lib ''inputs, labels = data'',
      Lib ''optimizer.zero_grad()'',
      Lib ''outputs = net(inputs)'',
      Lib ''loss = criterion(outputs, labels)'',
      Lib ''loss.backward()'',
      Lib ''optimizer.step()'',
      Lib ''running_loss += loss.item()'']
     @ (if i mod 2000 = 1999 then [Print ''loss'', Lib ''running_loss = 0.0''] else [])"

definition cnn_train :: "nat \<Rightarrow> stmt list" where
  "cnn_train n_train =
     repeat 2 ([Lib ''running_loss = 0.0''] @ concat (map train_step [0..<n_train]))
     @ [Print ''Finished Training'']"

definition cnn_test_batch :: "stmt list" where
  "cnn_test_batch =
     [Lib ''dataiter = iter(testloader)'',
      Lib ''images, labels = dataiter.next()'',
      Lib ''torchvision.utils.make_grid(images)''] @ imshow_body
     @ [Print ''GroundTruth'']"

definition cnn_outputs :: "stmt list" where
  "cnn_outputs =
     [Lib ''outputs = net(images)'',
      Print ''Raw network output:'',
      Print ''torch.transpose(outputs, 1, 0)'']"

definition cnn_predicted :: "stmt list" where
  "cnn_predicted =
     [Lib ''_, predicted = torch.max(outputs, 1)'',
      Print ''Ground Truth'',
      Print ''Predict'']"

definition cnn_accuracy :: "nat \<Rightarrow> stmt list" where
  "cnn_accuracy n_test =
     [Lib ''correct = 0'', Lib ''total = 0'']
     @ repeat n_test
         [Lib ''images, labels = data'',
          Lib ''outputs = net(images)'',
          Lib ''_, predicted = torch.max(outputs.data, 1)'',
          Lib ''total += labels.size(0)'',
          Lib ''correct += (predicted == labels).sum().item()'']
     @ [Print ''Accuracy of the network on the 10000 test images'']"

definition cnn_class_accuracy :: "nat \<Rightarrow> stmt list" where
  "cnn_class_accuracy n_test =
     [Lib ''class_correct = list(0. for i in range(10))'',
      Lib ''class_total = list(0. for i in range(10))'']
     @ repeat n_test
         ([Lib ''images, labels = data'',
           Lib ''outputs = net(images)'',
           Lib ''_, predicted = torch.max(outputs, 1)'',
           Lib ''c = (predicted == labels).squeeze()'']
          @ repeat 4
              [Lib ''label = labels[i]'',
               Lib ''class_correct[label] += c[i].item()'',
               Lib ''class_total[label] += 1''])
     @ repeat 10 [Print ''Accuracy of class i'']"

definition cnn_intermediate :: "stmt list" where
  "cnn_intermediate =
     [Lib ''net_intermediate = nn.Sequential(net.children()[0:1])'',
      Echo ''net_intermediate.eval()'']"

text \<open>
  The last cell draws one row per image of the batch and one column per filter of
  \<open>conv1\<close>: four images, six filters.
\<close>

definition cnn_filter_plot :: "stmt list" where
  "cnn_filter_plot =
     [Lib ''image_outputs = net_intermediate(images)'',
      Lib ''nImages, nFilters, height, width = image_outputs.shape'',
      Lib ''f, ax = plt.subplots(nImages, nFilters+1, figsize=(25,12))'']
     @ repeat 4 ([Lib ''ax[idx_img][0].imshow(...)''] @ repeat 6 [Lib ''ax[idx_img][idx_filter+1].imshow(...)''])
     @ [Plot ''the open figure, drawn inline when the cell ends'']"

definition cnn_cells :: "nat \<Rightarrow> nat \<Rightarrow> stmt list list" where
  "cnn_cells n_train n_test =
     [cnn_imports, cnn_net, cnn_named_parameters, cnn_hand_count, cnn_count,
      cnn_print_parameters, cnn_transform, cnn_datasets, cnn_def_imshow, cnn_first_batch,
      cnn_show_batch, cnn_criterion, cnn_optimizer, cnn_train n_train, cnn_test_batch,
      cnn_outputs, cnn_predicted, cnn_accuracy n_test, cnn_class_accuracy n_test,
      cnn_intermediate, cnn_test_batch, cnn_filter_plot]"

text \<open>Whether a statement is one that can store files.\<close>

fun may_write :: "stmt \<Rightarrow> bool" where
  "may_write (CIFAR10 rootdir train download) = download"
| "may_write _ = False"

text \<open>
  Concrete runs: a library that returns from every call without a warning, one whose
  calls return after a \<open>ConvergenceWarning\<close>, and a disk without any file.
\<close>

definition quiet_library :: "nat \<Rightarrow> answer" where
  "quiet_library k = Returns []"

definition fit_warns :: "nat \<Rightarrow> answer" where
  "fit_warns k = Returns [ConvergenceWarning]"

definition empty_disk :: world where
  "empty_disk = \<lparr> files = {}, shown = [] \<rparr>"

section \<open>Properties of \<open>Net\<close>\<close>

lemma bind_exn_Inr [simp]: "bind_exn (Inr a) f = f a"
  by (simp add: bind_exn_def)

lemma bind_exn_Inl [simp]: "bind_exn (Inl e) f = Inl e"
  by (simp add: bind_exn_def)



text \<open>
  C8. The sum typed in by hand is 62006, and so is the count taken over
  \<open>net.parameters()\<close>.
\<close>

theorem parameter_count_62006:
  "hand_written_count = 62006 \<and> trainable_parameter_count Net = hand_written_count"
  by (simp add: hand_written_count_def trainable_parameter_count_def parameters_def
      Net_def numel_def)

section \<open>Properties of the image transforms\<close>

lemma length3: "length xs = 3 \<Longrightarrow> \<exists>a b c. xs = [a, b, c]"
  by (cases xs; simp; rename_tac y ys; case_tac ys; simp; rename_tac z zs; case_tac zs; simp)

lemma np_transpose_120_nth:
  assumes "image_wf C H W img" "h < H" "w < W" "c < C"
  shows "np_transpose_120 img ! h ! w ! c = img ! c ! h ! w"
proof -
  from assms obtain ch rest where img: "img = ch # rest"
    by (cases img) (auto simp: image_wf_def)
  with assms have lch: "length ch = H" by (auto simp: image_wf_def)
  with assms obtain row rows where ch: "ch = row # rows" by (cases ch) auto
  with img assms have lrow: "length row = W" by (auto simp: image_wf_def)
  from assms have "length img = C" by (simp add: image_wf_def)
  then show ?thesis using assms(2-4) lch lrow
    by (simp add: np_transpose_120_def img ch Let_def del: upt_Suc)
qed

subsection \<open>Rounding to \<open>float32\<close>\<close>

lemma pow2_powr: "pow2 e = 2 powr (of_int e)"
proof (cases "0 \<le> e")
  case True
  then obtain n where e: "e = int n" using nonneg_int_cases by blast
  have "(2::real) powr (real n) = 2 ^ n" by (rule powr_realpow) simp
  then show ?thesis by (simp add: pow2_def e)
next
  case False
  then obtain n where e: "e = - int n" and n: "0 < n"
    by (metis neg_int_cases not_le)
  have "(2::real) powr (- real n) = 1 / (2 powr (real n))" by (simp add: powr_minus_divide)
  also have "\<dots> = 1 / 2 ^ n" by (simp add: powr_realpow)
  finally show ?thesis using n by (simp add: pow2_def e)
qed

lemma pow2_pos [simp]: "0 < pow2 e"
  by (simp add: pow2_powr)

lemma pow2_add: "pow2 (a + b) = pow2 a * pow2 b"
  by (simp add: pow2_powr powr_add)

lemma pow2_le_iff [simp]: "pow2 a \<le> pow2 b \<longleftrightarrow> a \<le> b"
  by (simp add: pow2_powr)

lemma pow2_less_iff [simp]: "pow2 a < pow2 b \<longleftrightarrow> a < b"
  by (simp add: pow2_powr)

lemma pow2_nat: "pow2 (int n) = 2 ^ n"
  by (simp add: pow2_def)

lemma pow2_0 [simp]: "pow2 0 = 1"
  by (simp add: pow2_def)

lemma expo_from_spec:
  "- 126 \<le> s \<Longrightarrow> \<bar>x\<bar> < pow2 (s + 1) \<Longrightarrow>
   - 126 \<le> expo_from s x \<and> expo_from s x \<le> s \<and> \<bar>x\<bar> < pow2 (expo_from s x + 1)
   \<and> (pow2 (- 126) \<le> \<bar>x\<bar> \<longrightarrow> pow2 (expo_from s x) \<le> \<bar>x\<bar>)"
proof (induction s x rule: expo_from.induct)
  case (1 e x)
  show ?case
  proof (cases "e \<le> - 126")
    case True
    with "1.prems" have "e = - 126" by simp
    with "1.prems" show ?thesis by (subst (1 2 3 4) expo_from.simps) simp
  next
    case False
    show ?thesis
    proof (cases "pow2 e \<le> \<bar>x\<bar>")
      case True
      with False "1.prems" show ?thesis by (subst (1 2 3 4) expo_from.simps) simp
    next
      case nle: False
      then have "\<bar>x\<bar> < pow2 (e - 1 + 1)" by simp
      moreover have "- 126 \<le> e - 1" using False by simp
      ultimately have "- 126 \<le> expo_from (e - 1) x \<and> expo_from (e - 1) x \<le> e - 1
         \<and> \<bar>x\<bar> < pow2 (expo_from (e - 1) x + 1)
         \<and> (pow2 (- 126) \<le> \<bar>x\<bar> \<longrightarrow> pow2 (expo_from (e - 1) x) \<le> \<bar>x\<bar>)"
        using "1.IH" [OF False nle] by blast
      moreover have "expo_from e x = expo_from (e - 1) x"
        using False nle by (subst expo_from.simps) simp
      ultimately show ?thesis by simp
    qed
  qed
qed

lemma expo32_spec:
  assumes "\<bar>x\<bar> < pow2 128"
  shows "- 126 \<le> expo32 x" "expo32 x \<le> 127" "\<bar>x\<bar> < pow2 (expo32 x + 1)"
    "pow2 (- 126) \<le> \<bar>x\<bar> \<Longrightarrow> pow2 (expo32 x) \<le> \<bar>x\<bar>"
  using expo_from_spec [of 127 x] assms by (simp_all add: expo32_def)

lemma expo32_eq:
  assumes "- 126 \<le> e" "e \<le> 127" "pow2 e \<le> \<bar>x\<bar>" "\<bar>x\<bar> < pow2 (e + 1)"
  shows "expo32 x = e"
proof -
  have "pow2 (e + 1) \<le> pow2 128" using assms(2) by simp
  with assms(4) have b: "\<bar>x\<bar> < pow2 128" by linarith
  have "pow2 (- 126) \<le> pow2 e" using assms(1) by simp
  with assms(3) have n: "pow2 (- 126) \<le> \<bar>x\<bar>" by linarith
  from expo32_spec(3) [OF b] assms(3) have "pow2 e < pow2 (expo32 x + 1)" by linarith
  then have "e \<le> expo32 x" by simp
  moreover from expo32_spec(4) [OF b n] assms(4) have "pow2 (expo32 x) < pow2 (e + 1)" by linarith
  then have "expo32 x \<le> e" by simp
  ultimately show ?thesis by simp
qed

lemma expo_from_subnormal:
  "\<bar>x\<bar> < pow2 (- 126) \<Longrightarrow> expo_from s x = - 126"
proof (induction s x rule: expo_from.induct)
  case (1 e x)
  show ?case
  proof (cases "e \<le> - 126")
    case True
    then show ?thesis by (subst expo_from.simps) simp
  next
    case False
    then have "pow2 (- 126) \<le> pow2 e" by simp
    with "1.prems" have nle: "\<not> pow2 e \<le> \<bar>x\<bar>" by linarith
    from "1.IH" [OF False nle "1.prems"] False nle show ?thesis
      by (subst expo_from.simps) simp
  qed
qed

lemma expo32_subnormal: "\<bar>x\<bar> < pow2 (- 126) \<Longrightarrow> expo32 x = - 126"
  by (simp add: expo32_def expo_from_subnormal)

lemma round_even_of_int [simp]: "round_even (of_int k) = k"
  by (simp add: round_even_def)

lemma round_even_error: "\<bar>of_int (round_even y) - y\<bar> \<le> 1 / 2"
proof -
  have "of_int \<lfloor>y\<rfloor> \<le> y" "y < of_int \<lfloor>y\<rfloor> + 1" by linarith+
  then show ?thesis by (auto simp: round_even_def Let_def)
qed

lemma round_even_lower: "of_int a \<le> y \<Longrightarrow> a \<le> round_even y"
proof -
  assume "of_int a \<le> y"
  then have "a \<le> \<lfloor>y\<rfloor>" by (simp add: le_floor_iff)
  then show ?thesis by (auto simp: round_even_def Let_def)
qed

lemma round_even_upper: "y \<le> of_int b \<Longrightarrow> round_even y \<le> b"
proof (cases "y = of_int b")
  case True
  then show ?thesis by simp
next
  case False
  assume "y \<le> of_int b"
  with False have "y < of_int b" by simp
  then have "\<lfloor>y\<rfloor> < b" by (simp add: floor_less_iff)
  then show ?thesis by (auto simp: round_even_def Let_def)
qed

lemma fl32_0 [simp]: "fl32 0 = 0"
  by (simp add: fl32_def round_even_def)

lemma pow2_abs [simp]: "\<bar>pow2 q\<bar> = pow2 q"
  by (simp add: abs_of_pos)

lemma pow2_24: "pow2 24 = 16777216"
  by (simp add: pow2_def)

lemma fl32_multiple:
  assumes "x = of_int k * pow2 q" "expo32 x - 23 \<le> q"
  shows "fl32 x = x"
proof -
  define u where "u = pow2 (expo32 x - 23)"
  have u: "0 < u" by (simp add: u_def)
  obtain n where n: "q - (expo32 x - 23) = int n"
    using assms(2) by (metis diff_ge_0_iff_ge nonneg_int_cases)
  then have "q = int n + (expo32 x - 23)" by simp
  then have "pow2 q = pow2 (int n + (expo32 x - 23))" by simp
  then have pq: "pow2 q = 2 ^ n * u" by (simp only: pow2_add pow2_nat u_def)
  have "x = of_int k * (2 ^ n * u)" using assms(1) pq by simp
  then have xu: "x / u = of_int (k * 2 ^ n)" using u by simp
  then have "round_even (x / u) = k * 2 ^ n" by (simp only: round_even_of_int)
  then have "fl32 x = u * of_int (k * 2 ^ n)" by (simp add: fl32_def u_def)
  also have "\<dots> = u * (x / u)" using xu by simp
  also have "\<dots> = x" using u by simp
  finally show ?thesis .
qed

lemma fl32_fix_strict:
  assumes "x = of_int k * pow2 q" "\<bar>k\<bar> < 2 ^ 24" "- 149 \<le> q" "\<bar>x\<bar> < pow2 128"
  shows "fl32 x = x"
proof (cases "pow2 (- 126) \<le> \<bar>x\<bar>")
  case False
  then have "expo32 x = - 126" by (simp add: expo32_subnormal)
  with assms(3) have "expo32 x - 23 \<le> q" by simp
  with assms(1) show ?thesis by (rule fl32_multiple)
next
  case True
  from expo32_spec(4) [OF assms(4) True] have lo: "pow2 (expo32 x) \<le> \<bar>x\<bar>" .
  have "\<bar>x\<bar> = \<bar>of_int k\<bar> * pow2 q" using assms(1) by (simp add: abs_mult)
  also have "\<dots> < 2 ^ 24 * pow2 q"
  proof -
    have "\<bar>of_int k :: real\<bar> < 2 ^ 24" using assms(2) by (metis of_int_abs of_int_less_numeral_power_cancel_iff)
    then show ?thesis by (simp add: mult_strict_right_mono)
  qed
  also have "\<dots> = pow2 (24 + q)" by (simp add: pow2_add pow2_24)
  finally have "pow2 (expo32 x) < pow2 (24 + q)" using lo by linarith
  then have "expo32 x - 23 \<le> q" by simp
  with assms(1) show ?thesis by (rule fl32_multiple)
qed

lemma fl32_fix:
  assumes "x = of_int k * pow2 q" "\<bar>k\<bar> \<le> 2 ^ 24" "- 149 \<le> q" "\<bar>x\<bar> < pow2 128"
  shows "fl32 x = x"
proof (cases "\<bar>k\<bar> < 2 ^ 24")
  case True
  with assms show ?thesis using fl32_fix_strict by blast
next
  case False
  with assms(2) have "\<bar>k\<bar> = 2 ^ 24" by simp
  then have "k = 2 ^ 24 \<or> k = - (2 ^ 24)" by (simp add: abs_if split: if_splits)
  then have "x = of_int (sgn k) * pow2 (q + 24)"
    using assms(1) by (auto simp: pow2_add pow2_24)
  moreover have "\<bar>sgn k\<bar> < 2 ^ 24" by (simp add: sgn_if)
  moreover have "- 149 \<le> q + 24" using assms(3) by simp
  ultimately show ?thesis using assms(4) fl32_fix_strict by blast
qed

lemma pow2_128_big: "\<bar>x\<bar> \<le> 2 \<Longrightarrow> \<bar>x\<bar> < pow2 128"
proof -
  assume "\<bar>x\<bar> \<le> 2"
  moreover have "pow2 1 < pow2 128" by simp
  moreover have "pow2 1 = 2" by (simp add: pow2_def)
  ultimately show ?thesis by linarith
qed

lemma fl32_half [simp]: "fl32 (1 / 2) = 1 / 2"
  by (rule fl32_fix [of _ 1 "- 1"]) (simp_all add: pow2_def)

lemma pow2_m25: "pow2 (- 25) = 1 / 33554432"
  by (simp add: pow2_def)

lemma pow2_m24: "pow2 (- 24) = 1 / 16777216"
  by (simp add: pow2_def)

lemma fl32_grid25:
  assumes "\<bar>k\<bar> \<le> 2 ^ 24"
  shows "fl32 (of_int k / 33554432) = of_int k / 33554432"
proof (rule fl32_fix [of _ k "- 25"])
  show "of_int k / 33554432 = of_int k * pow2 (- 25)" by (simp add: pow2_m25)
  show "\<bar>k\<bar> \<le> 2 ^ 24" by fact
  show "- 149 \<le> (- 25 :: int)" by simp
  have "\<bar>real_of_int k\<bar> \<le> 2 ^ 24" using assms by (metis of_int_abs of_int_le_numeral_power_cancel_iff)
  then have "\<bar>of_int k / 33554432 :: real\<bar> \<le> 2" by simp
  then show "\<bar>of_int k / 33554432 :: real\<bar> < pow2 128" by (rule pow2_128_big)
qed

lemma fl32_grid24:
  assumes "\<bar>k\<bar> \<le> 2 ^ 24"
  shows "fl32 (of_int k / 16777216) = of_int k / 16777216"
proof (rule fl32_fix [of _ k "- 24"])
  show "of_int k / 16777216 = of_int k * pow2 (- 24)" by (simp add: pow2_m24)
  show "\<bar>k\<bar> \<le> 2 ^ 24" by fact
  show "- 149 \<le> (- 24 :: int)" by simp
  have "\<bar>real_of_int k\<bar> \<le> 2 ^ 24" using assms by (metis of_int_abs of_int_le_numeral_power_cancel_iff)
  then have "\<bar>of_int k / 16777216 :: real\<bar> \<le> 2" by simp
  then show "\<bar>of_int k / 16777216 :: real\<bar> < pow2 128" by (rule pow2_128_big)
qed

lemma normalize_pixel_half:
  "normalize_pixel 0.5 0.5 x = fl32 (fl32 (x - 1 / 2) / (1 / 2))"
  by (simp add: normalize_pixel_def)

lemma unnormalize_pixel_alt: "unnormalize_pixel y = fl32 (fl32 (y / 2) + 1 / 2)"
  by (simp add: unnormalize_pixel_def)

lemma round_trip_after_subtraction:
  assumes "- (2 ^ 24) \<le> k" "k \<le> 2 ^ 24" "fl32 (x - 1 / 2) = of_int k / 33554432"
    and "fl32 ((of_int k + 16777216) / 33554432) = (of_int k + 16777216) / 33554432"
  shows "unnormalize_pixel (normalize_pixel 0.5 0.5 x) = (of_int k + 16777216) / 33554432"
proof -
  have k: "\<bar>k\<bar> \<le> 2 ^ 24" using assms(1,2) by simp
  have e1: "of_int k / 33554432 / (1 / 2) = (of_int k / 16777216 :: real)" by simp
  have e2: "of_int k / 16777216 / 2 = (of_int k / 33554432 :: real)" by simp
  have e3: "of_int k / 33554432 + 1 / 2 = ((of_int k + 16777216) / 33554432 :: real)"
    by (simp add: field_simps)
  have "normalize_pixel 0.5 0.5 x = fl32 (of_int k / 33554432 / (1 / 2))"
    by (simp only: normalize_pixel_half assms(3))
  also have "\<dots> = of_int k / 16777216"
    by (simp only: e1 fl32_grid24 [OF k])
  finally have n: "normalize_pixel 0.5 0.5 x = of_int k / 16777216" .
  have "unnormalize_pixel (normalize_pixel 0.5 0.5 x) = fl32 (fl32 (of_int k / 16777216 / 2) + 1 / 2)"
    by (simp only: unnormalize_pixel_alt n)
  also have "\<dots> = fl32 (of_int k / 33554432 + 1 / 2)"
    by (simp only: e2 fl32_grid25 [OF k])
  also have "\<dots> = (of_int k + 16777216) / 33554432"
    by (simp only: e3 assms(4))
  finally show ?thesis .
qed

lemma round_trip_small:
  assumes "0 < x" "x < 1 / 4"
  shows "unnormalize_pixel (normalize_pixel 0.5 0.5 x)
           = (of_int (round_even ((x - 1 / 2) * 33554432)) + 16777216) / 33554432"
    and "\<bar>unnormalize_pixel (normalize_pixel 0.5 0.5 x) - x\<bar> \<le> 1 / 67108864"
proof -
  define y where "y = x - 1 / 2"
  define k where "k = round_even (y * 33554432)"
  have yb: "- (1 / 2) < y" "y < - (1 / 4)" using assms by (simp_all add: y_def)
  have "expo32 y = - 2"
  proof (rule expo32_eq)
    show "pow2 (- 2) \<le> \<bar>y\<bar>" using yb by (simp add: pow2_def)
    show "\<bar>y\<bar> < pow2 (- 2 + 1)" using yb by (simp add: pow2_def)
  qed simp_all
  then have fy: "fl32 y = of_int k / 33554432"
    by (simp add: fl32_def k_def pow2_m25)
  have lo: "- (2 ^ 24) \<le> k"
    unfolding k_def by (rule round_even_lower) (use yb in simp)
  have hi: "k \<le> - (2 ^ 23)"
    unfolding k_def by (rule round_even_upper) (use yb in simp)
  have "\<bar>k + 16777216\<bar> \<le> 2 ^ 24" using lo hi by simp
  from fl32_grid25 [OF this]
  have g: "fl32 ((of_int k + 16777216) / 33554432) = (of_int k + 16777216) / 33554432"
    by simp
  have rt: "unnormalize_pixel (normalize_pixel 0.5 0.5 x) = (of_int k + 16777216) / 33554432"
    using lo hi fy g by (intro round_trip_after_subtraction) (simp_all add: y_def)
  then show "unnormalize_pixel (normalize_pixel 0.5 0.5 x)
           = (of_int (round_even ((x - 1 / 2) * 33554432)) + 16777216) / 33554432"
    by (simp add: k_def y_def)
  define d where "d = of_int k - y * 33554432"
  have d: "\<bar>d\<bar> \<le> 1 / 2"
    unfolding d_def k_def by (rule round_even_error)
  have eq: "(of_int k + 16777216) / 33554432 - x = d / 33554432"
    by (simp add: d_def y_def field_simps)
  have "\<bar>d / 33554432\<bar> \<le> 1 / 67108864" using d by simp
  then show "\<bar>unnormalize_pixel (normalize_pixel 0.5 0.5 x) - x\<bar> \<le> 1 / 67108864"
    unfolding rt eq .
qed

lemma round_trip_zero: "unnormalize_pixel (normalize_pixel 0.5 0.5 0) = 0"
proof -
  have "fl32 (0 - 1 / 2) = of_int (- 16777216) / 33554432"
    using fl32_grid25 [of "- 16777216"] by simp
  moreover have "fl32 ((of_int (- 16777216) + 16777216) / 33554432)
      = (of_int (- 16777216) + 16777216) / 33554432" by simp
  ultimately have "unnormalize_pixel (normalize_pixel 0.5 0.5 0)
      = (of_int (- 16777216) + 16777216) / 33554432"
    by (intro round_trip_after_subtraction) simp_all
  then show ?thesis by simp
qed

lemma float32_on_grid:
  assumes "fl32 x = x" "1 / 4 \<le> x" "x \<le> 1"
  shows "\<exists>j. x = of_int j / 33554432"
proof -
  have b: "\<bar>x\<bar> < pow2 128" using assms by (intro pow2_128_big) simp
  have "pow2 (- 2) \<le> \<bar>x\<bar>" using assms(2) by (simp add: pow2_def)
  with expo32_spec(3) [OF b] have "pow2 (- 2) < pow2 (expo32 x + 1)" by linarith
  then have "0 \<le> expo32 x + 2" by simp
  then obtain n where n: "expo32 x + 2 = int n" using nonneg_int_cases by blast
  then have "expo32 x - 23 = int n + (- 25)" by simp
  then have "pow2 (expo32 x - 23) = pow2 (int n) * pow2 (- 25)"
    by (simp only: pow2_add)
  then have "pow2 (expo32 x - 23) = 2 ^ n / 33554432"
    by (simp add: pow2_nat pow2_m25)
  with assms(1) have "x = 2 ^ n / 33554432 * of_int (round_even (x / (2 ^ n / 33554432)))"
    by (simp add: fl32_def)
  then have "x = of_int (2 ^ n * round_even (x / (2 ^ n / 33554432))) / 33554432"
    by simp
  then show ?thesis by blast
qed

lemma round_trip_large:
  assumes "fl32 x = x" "1 / 4 \<le> x" "x \<le> 1"
  shows "unnormalize_pixel (normalize_pixel 0.5 0.5 x) = x"
proof -
  from float32_on_grid [OF assms] obtain j where j: "x = of_int j / 33554432" by blast
  define k where "k = j - 16777216"
  have "8388608 \<le> real_of_int j" "real_of_int j \<le> 33554432" using assms(2,3) j by simp_all
  then have jb: "8388608 \<le> j" "j \<le> 33554432" by linarith+
  then have kb: "- (2 ^ 24) \<le> k" "k \<le> 2 ^ 24" by (simp_all add: k_def)
  then have "\<bar>k\<bar> \<le> 2 ^ 24" by simp
  from fl32_grid25 [OF this] have "fl32 (x - 1 / 2) = of_int k / 33554432"
    by (simp add: j k_def field_simps)
  moreover have "(of_int k + 16777216) / 33554432 = x" by (simp add: j k_def)
  ultimately have "unnormalize_pixel (normalize_pixel 0.5 0.5 x) = (of_int k + 16777216) / 33554432"
    using kb assms(1) by (intro round_trip_after_subtraction) simp_all
  then show ?thesis by (simp add: j k_def)
qed

lemma image_wf_map:
  "image_wf C H W img \<Longrightarrow> image_wf C H W (map (map (map f)) img)"
  by (auto simp: image_wf_def)

lemma image_nth_map:
  assumes "image_wf C H W img" "c < C" "h < H" "w < W"
  shows "map (map (map f)) img ! c ! h ! w = f (img ! c ! h ! w)"
    and "img ! c ! h ! w \<in> set (img ! c ! h)" and "img ! c ! h \<in> set (img ! c)"
    and "img ! c \<in> set img"
proof -
  from assms have c: "c < length img" by (simp add: image_wf_def)
  then have ch: "img ! c \<in> set img" by simp
  with assms have h: "h < length (img ! c)" by (simp add: image_wf_def)
  then have row: "img ! c ! h \<in> set (img ! c)" by simp
  from assms(1) ch row have "length (img ! c ! h) = W" by (auto simp: image_wf_def)
  with assms(4) have w: "w < length (img ! c ! h)" by simp
  show "map (map (map f)) img ! c ! h ! w = f (img ! c ! h ! w)" using c h w by simp
  show "img ! c ! h ! w \<in> set (img ! c ! h)" using w by simp
  show "img ! c ! h \<in> set (img ! c)" by fact
  show "img ! c \<in> set img" by fact
qed

lemma round_trip_pixel:
  assumes "fl32 x = x" "0 \<le> x" "x \<le> 1"
  shows "\<bar>unnormalize_pixel (normalize_pixel 0.5 0.5 x) - x\<bar> \<le> 1 / 2 ^ 26"
    and "x = 0 \<or> 1 / 4 \<le> x \<Longrightarrow> unnormalize_pixel (normalize_pixel 0.5 0.5 x) = x"
proof -
  consider "x = 0" | "0 < x" "x < 1 / 4" | "1 / 4 \<le> x" using assms(2) by linarith
  then show "\<bar>unnormalize_pixel (normalize_pixel 0.5 0.5 x) - x\<bar> \<le> 1 / 2 ^ 26"
  proof cases
    case 1
    then show ?thesis using round_trip_zero by simp
  next
    case 2
    from round_trip_small(2) [OF 2] show ?thesis by simp
  next
    case 3
    from round_trip_large [OF assms(1) 3 assms(3)] show ?thesis by simp
  qed
  show "unnormalize_pixel (normalize_pixel 0.5 0.5 x) = x" if "x = 0 \<or> 1 / 4 \<le> x"
    using that round_trip_zero round_trip_large [OF assms(1) _ assms(3)] by blast
qed

lemma fl32_pixel_1_255: "fl32 (8421505 / 2147483648) = 8421505 / 2147483648"
  by (rule fl32_fix [of _ 8421505 "- 31"]) (simp_all add: pow2_def pow2_128_big)

lemma normalize_pixel_small:
  assumes "0 < x" "x < 1 / 4"
  shows "normalize_pixel 0.5 0.5 x = of_int (round_even ((x - 1 / 2) * 33554432)) / 16777216"
proof -
  define y where "y = x - 1 / 2"
  define k where "k = round_even (y * 33554432)"
  have yb: "- (1 / 2) < y" "y < - (1 / 4)" using assms by (simp_all add: y_def)
  have "expo32 y = - 2"
  proof (rule expo32_eq)
    show "pow2 (- 2) \<le> \<bar>y\<bar>" using yb by (simp add: pow2_def)
    show "\<bar>y\<bar> < pow2 (- 2 + 1)" using yb by (simp add: pow2_def)
  qed simp_all
  then have fy: "fl32 (x - 1 / 2) = of_int k / 33554432"
    by (simp add: fl32_def k_def pow2_m25 y_def)
  have "- (2 ^ 24) \<le> k"
    unfolding k_def by (rule round_even_lower) (use yb in simp)
  moreover have "k \<le> - (2 ^ 23)"
    unfolding k_def by (rule round_even_upper) (use yb in simp)
  ultimately have k: "\<bar>k\<bar> \<le> 2 ^ 24" by simp
  have e1: "of_int k / 33554432 / (1 / 2) = (of_int k / 16777216 :: real)" by simp
  have "normalize_pixel 0.5 0.5 x = fl32 (of_int k / 33554432 / (1 / 2))"
    by (simp only: normalize_pixel_half fy)
  also have "\<dots> = of_int k / 16777216"
    by (simp only: e1 fl32_grid24 [OF k])
  finally show ?thesis by (simp add: k_def y_def)
qed

subsection \<open>The round trip through \<open>Normalize\<close> and \<open>imshow\<close>\<close>

text \<open>
  C9, as the notebook has it. On a three-channel image of \<open>float32\<close> pixel values
  between 0 and 1, normalized with \<open>Normalize((0.5, 0.5, 0.5), (0.5, 0.5, 0.5))\<close>, the
  array \<open>imshow\<close> draws holds at \<open>[h][w][c]\<close> the original pixel \<open>[c][h][w]\<close> up to
  the rounding of the subtraction \<open>x - 0.5\<close>: the two differ by at most \<open>2^-26\<close>, and
  they are equal when the pixel is 0 or at least 0.25.
\<close>

theorem imshow_round_trip_float32:
  assumes "image_wf 3 H W img"
    and "\<forall>ch \<in> set img. \<forall>row \<in> set ch. \<forall>x \<in> set row. fl32 x = x \<and> 0 \<le> x \<and> x \<le> 1"
  shows "\<exists>n. transform_normalize img = Inr n
           \<and> (\<forall>h<H. \<forall>w<W. \<forall>c<3.
                  \<bar>imshow n ! h ! w ! c - img ! c ! h ! w\<bar> \<le> 1 / 2 ^ 26
                \<and> (img ! c ! h ! w = 0 \<or> 1 / 4 \<le> img ! c ! h ! w
                     \<longrightarrow> imshow n ! h ! w ! c = img ! c ! h ! w))"
proof -
  from assms(1) have "length img = 3" by (simp add: image_wf_def)
  then obtain a b c where img: "img = [a, b, c]" using length3 by blast
  define n where "n = map (map (map (normalize_pixel 0.5 0.5))) img"
  have tn: "transform_normalize img = Inr n"
    by (simp add: transform_normalize_def Normalize_def img n_def)
  have wfn: "image_wf 3 H W (map (map (map unnormalize_pixel)) n)"
    unfolding n_def by (intro image_wf_map assms(1))
  have px: "imshow n ! h ! w ! c
              = unnormalize_pixel (normalize_pixel 0.5 0.5 (img ! c ! h ! w))"
    if "h < H" "w < W" "c < 3" for h w c
  proof -
    have "imshow n ! h ! w ! c = map (map (map unnormalize_pixel)) n ! c ! h ! w"
      using np_transpose_120_nth [OF wfn that] by (simp add: imshow_def Let_def)
    also have "\<dots> = unnormalize_pixel (n ! c ! h ! w)"
      using image_nth_map(1) [OF image_wf_map [OF assms(1)] that(3,1,2)] by (simp add: n_def)
    also have "n ! c ! h ! w = normalize_pixel 0.5 0.5 (img ! c ! h ! w)"
      unfolding n_def using image_nth_map(1) [OF assms(1) that(3,1,2)] .
    finally show ?thesis .
  qed
  have "\<bar>imshow n ! h ! w ! c - img ! c ! h ! w\<bar> \<le> 1 / 2 ^ 26
      \<and> (img ! c ! h ! w = 0 \<or> 1 / 4 \<le> img ! c ! h ! w
           \<longrightarrow> imshow n ! h ! w ! c = img ! c ! h ! w)"
    if "h < H" "w < W" "c < 3" for h w c
  proof -
    from image_nth_map(2,3,4) [OF assms(1) that(3,1,2)] assms(2)
    have x: "fl32 (img ! c ! h ! w) = img ! c ! h ! w" "0 \<le> img ! c ! h ! w" "img ! c ! h ! w \<le> 1"
      by blast+
    from round_trip_pixel [OF x] show ?thesis unfolding px [OF that] by blast
  qed
  with tn show ?thesis by blast
qed

theorem imshow_round_trip_float32_witness:
  "image_wf 3 1 2 [[[0, 1 / 4]], [[1 / 2, 1]], [[8421505 / 2147483648, 3 / 4]]]
   \<and> fl32 0 = 0 \<and> fl32 (1 / 4) = 1 / 4 \<and> fl32 (1 / 2) = 1 / 2 \<and> fl32 1 = 1
   \<and> fl32 (8421505 / 2147483648) = 8421505 / 2147483648 \<and> fl32 (3 / 4) = 3 / 4
   \<and> (\<exists>n. transform_normalize [[[0, 1 / 4]], [[1 / 2, 1]], [[8421505 / 2147483648, 3 / 4]]] = Inr n
        \<and> imshow n ! 0 ! 1 ! 1 = 1
        \<and> \<bar>imshow n ! 0 ! 0 ! 2 - 8421505 / 2147483648\<bar> \<le> 1 / 2 ^ 26)"
proof -
  let ?img = "[[[0, 1 / 4]], [[1 / 2, 1]], [[8421505 / 2147483648, 3 / 4 :: real]]]"
  have wf: "image_wf 3 1 2 ?img" by (simp add: image_wf_def)
  have f1: "fl32 (1 / 4) = 1 / 4"
    by (rule fl32_fix [of _ 1 "- 2"]) (simp_all add: pow2_def pow2_128_big)
  have f2: "fl32 1 = 1"
  proof (rule fl32_fix [of _ 1 0])
    show "\<bar>1 :: real\<bar> < pow2 128" by (rule pow2_128_big) simp
  qed simp_all
  have f3: "fl32 (3 / 4) = 3 / 4"
    by (rule fl32_fix [of _ 3 "- 2"]) (simp_all add: pow2_def pow2_128_big)
  have px: "\<forall>ch \<in> set ?img. \<forall>row \<in> set ch. \<forall>x \<in> set row. fl32 x = x \<and> 0 \<le> x \<and> x \<le> 1"
    using f1 f2 f3 fl32_pixel_1_255 by simp
  from imshow_round_trip_float32 [OF wf px] obtain n where
    n: "transform_normalize ?img = Inr n"
    and all: "\<forall>h<1. \<forall>w<2. \<forall>c<3.
                  \<bar>imshow n ! h ! w ! c - ?img ! c ! h ! w\<bar> \<le> 1 / 2 ^ 26
                \<and> (?img ! c ! h ! w = 0 \<or> 1 / 4 \<le> ?img ! c ! h ! w
                     \<longrightarrow> imshow n ! h ! w ! c = ?img ! c ! h ! w)"
    by blast
  from all [rule_format, of 0 1 1] have a: "imshow n ! 0 ! 1 ! 1 = 1" by simp
  from all [rule_format, of 0 0 2]
  have b: "\<bar>imshow n ! 0 ! 0 ! 2 - 8421505 / 2147483648\<bar> \<le> 1 / 2 ^ 26" by simp
  from wf f1 f2 f3 fl32_pixel_1_255 n a b show ?thesis by simp
qed

text \<open>
  C9, as the claim states it, fails: the round trip is not exact for every pixel value.
  The \<open>float32\<close> value of \<open>1/255\<close> is \<open>8421505 / 2^31\<close>; it is normalized to
  \<open>-8322815 / 2^23\<close>, and \<open>imshow\<close> draws \<open>65793 / 2^24\<close>, another number.
\<close>

theorem imshow_round_trip_not_exact:
  "fl32 (8421505 / 2147483648) = 8421505 / 2147483648
   \<and> transform_normalize
        [[[8421505 / 2147483648]], [[8421505 / 2147483648]], [[8421505 / 2147483648]]]
      = Inr [[[- (8322815 / 8388608)]], [[- (8322815 / 8388608)]], [[- (8322815 / 8388608)]]]
   \<and> imshow [[[- (8322815 / 8388608)]], [[- (8322815 / 8388608)]], [[- (8322815 / 8388608)]]]
      = [[[65793 / 16777216, 65793 / 16777216, 65793 / 16777216]]]
   \<and> (65793 / 16777216 :: real) \<noteq> 8421505 / 2147483648"
proof -
  have k: "round_even ((8421505 / 2147483648 - 1 / 2) * 33554432) = - 16645630"
    by (simp add: round_even_def)
  have "normalize_pixel 0.5 0.5 (8421505 / 2147483648)
          = of_int (round_even ((8421505 / 2147483648 - 1 / 2) * 33554432)) / 16777216"
    by (rule normalize_pixel_small) simp_all
  also have "\<dots> = - (8322815 / 8388608)"
    unfolding k by simp
  finally have n: "normalize_pixel 0.5 0.5 (8421505 / 2147483648) = - (8322815 / 8388608)" .
  have "unnormalize_pixel (normalize_pixel 0.5 0.5 (8421505 / 2147483648))
          = (of_int (round_even ((8421505 / 2147483648 - 1 / 2) * 33554432)) + 16777216) / 33554432"
    by (rule round_trip_small(1)) simp_all
  also have "\<dots> = 65793 / 16777216"
    unfolding k by simp
  finally have r: "unnormalize_pixel (normalize_pixel 0.5 0.5 (8421505 / 2147483648))
          = 65793 / 16777216" .
  have u: "unnormalize_pixel (- (8322815 / 8388608)) = 65793 / 16777216"
    using r unfolding n .
  have t: "transform_normalize
        [[[8421505 / 2147483648]], [[8421505 / 2147483648]], [[8421505 / 2147483648]]]
      = Inr [[[- (8322815 / 8388608)]], [[- (8322815 / 8388608)]], [[- (8322815 / 8388608)]]]"
    unfolding transform_normalize_def Normalize_def using n by simp
  have i: "imshow [[[- (8322815 / 8388608)]], [[- (8322815 / 8388608)]], [[- (8322815 / 8388608)]]]
      = [[[65793 / 16777216, 65793 / 16777216, 65793 / 16777216]]]"
    unfolding imshow_def np_transpose_120_def Let_def by (simp add: u upt_rec)
  from fl32_pixel_1_255 t i show ?thesis by simp
qed

section \<open>Properties of the predicted classes\<close>

lemma traverse_Inr_iff:
  "traverse f xs = Inr ys \<longleftrightarrow> length ys = length xs \<and> (\<forall>i<length xs. f (xs ! i) = Inr (ys ! i))"
proof (induction xs arbitrary: ys)
  case Nil
  then show ?case by auto
next
  case (Cons x xs)
  show ?case
  proof (cases "f x")
    case (Inl e)
    then show ?thesis by auto
  next
    case fx: (Inr y)
    show ?thesis
    proof (cases "traverse f xs")
      case (Inl e)
      with Cons.IH [of "tl ys"] fx show ?thesis
        by (cases ys) (auto simp: nth_Cons split: nat.splits)
    next
      case (Inr zs)
      with Cons.IH [of zs] Cons.IH [of "tl ys"] fx show ?thesis
        by (cases ys) (auto simp: nth_Cons split: nat.splits)
    qed
  qed
qed

lemma traverse_total:
  "(\<And>x. x \<in> set xs \<Longrightarrow> \<exists>y. f x = Inr y) \<Longrightarrow> \<exists>ys. traverse f xs = Inr ys"
proof (induction xs)
  case Nil
  then show ?case by simp
next
  case (Cons x xs)
  then obtain y ys where "f x = Inr y" "traverse f xs = Inr ys" by (metis list.set_intros)
  then show ?case by simp
qed

lemma argmax_scan_spec:
  assumes "xs = pre @ rest" "length pre = i" "best < i" "xs ! best = v"
    "\<forall>j<i. xs ! j \<le> v" "\<forall>j<best. xs ! j < v"
  shows "argmax_scan best v i rest < length xs
       \<and> (\<forall>j<length xs. xs ! j \<le> xs ! argmax_scan best v i rest)
       \<and> (\<forall>j<argmax_scan best v i rest. xs ! j < xs ! argmax_scan best v i rest)"
  using assms
proof (induction rest arbitrary: best v i pre)
  case Nil
  then show ?case by auto
next
  case (Cons x rest)
  have xi: "xs ! i = x" using Cons.prems(1,2) by (simp add: nth_append)
  have split: "xs = (pre @ [x]) @ rest" "length (pre @ [x]) = Suc i"
    using Cons.prems(1,2) by simp_all
  show ?case
  proof (cases "v < x")
    case True
    have "\<forall>j<Suc i. xs ! j \<le> x"
      using Cons.prems(5) True xi by (auto simp: less_Suc_eq intro: order.trans less_imp_le)
    moreover have "\<forall>j<i. xs ! j < x"
      using Cons.prems(5) True by (auto intro: le_less_trans)
    ultimately show ?thesis
      using Cons.IH [OF split, of i x] xi True by simp
  next
    case False
    have "\<forall>j<Suc i. xs ! j \<le> v"
      using Cons.prems(5) False xi by (auto simp: less_Suc_eq)
    then show ?thesis
      using Cons.IH [OF split, of best v] Cons.prems(3,4,6) False by simp
  qed
qed

lemma np_argmax_spec:
  assumes "np_argmax xs = Inr k"
  shows "k < length xs \<and> (\<forall>j<length xs. xs ! j \<le> xs ! k) \<and> (\<forall>j<k. xs ! j < xs ! k)"
proof -
  from assms obtain x rest where xs: "xs = x # rest" and k: "k = argmax_scan 0 x 1 rest"
    by (auto simp: np_argmax_def split: list.splits)
  have "xs = [x] @ rest" by (simp add: xs)
  from argmax_scan_spec [OF this, of 1 0 x] show ?thesis
    by (simp add: xs k)
qed

lemma np_argmax_total: "xs \<noteq> [] \<Longrightarrow> \<exists>k. np_argmax xs = Inr k"
  by (cases xs) (simp_all add: np_argmax_def)

lemma np_argmax_pair: "np_argmax [a, b] = Inr (if a < b then 1 else 0)"
  by (simp add: np_argmax_def)

lemma np_argmax_Max:
  assumes "np_argmax xs = Inr k"
  shows "xs ! k = Max (set xs)"
proof -
  from np_argmax_spec [OF assms] have k: "k < length xs" and ub: "\<forall>j<length xs. xs ! j \<le> xs ! k"
    by auto
  have "\<forall>y\<in>set xs. y \<le> xs ! k" using ub by (auto simp: in_set_conv_nth)
  moreover have "xs ! k \<in> set xs" using k by simp
  ultimately show ?thesis by (intro Max_eqI [symmetric]) auto
qed


lemma length2: "length r = 2 \<Longrightarrow> \<exists>a b. r = [a, b]"
  by (cases r; simp; rename_tac y ys; case_tac ys; simp)

lemma print_row_binary:
  assumes "i < length x_predict" "i < length y_test" "length (x_predict ! i) = 2"
  shows "print_row x_predict y_test i =
           Inr (x_predict ! i ! 0, x_predict ! i ! 1,
                (if x_predict ! i ! 0 < x_predict ! i ! 1 then 1 else 0), y_test ! i)"
proof -
  from assms(3) obtain a b where r: "x_predict ! i = [a, b]" using length2 by blast
  show ?thesis using assms(1,2) by (simp add: print_row_def r np_argmax_pair)
qed

lemma predicted_labels_spec:
  assumes "\<forall>r \<in> set outputs. r \<noteq> []"
  shows "\<exists>p. predicted_labels outputs = Inr p \<and> length p = length outputs
           \<and> (\<forall>j<length outputs. np_argmax (outputs ! j) = Inr (p ! j))"
proof -
  let ?f = "\<lambda>row. case np_argmax row of Inl e \<Rightarrow> Inl RuntimeError | Inr k \<Rightarrow> Inr (row ! k, k)"
  have "\<exists>y. ?f row = Inr y" if "row \<in> set outputs" for row
    using np_argmax_total [of row] assms that by auto
  then obtain vks where t: "traverse ?f outputs = Inr vks"
    using traverse_total [of outputs ?f] by blast
  then have len: "length vks = length outputs"
    and each: "\<forall>j<length outputs. ?f (outputs ! j) = Inr (vks ! j)"
    by (simp_all add: traverse_Inr_iff)
  have "np_argmax (outputs ! j) = Inr (map snd vks ! j)" if "j < length outputs" for j
  proof -
    from each that have e: "?f (outputs ! j) = Inr (vks ! j)" by blast
    then obtain k where k: "np_argmax (outputs ! j) = Inr k"
      by (cases "np_argmax (outputs ! j)") auto
    with e have "vks ! j = (outputs ! j ! k, k)" by simp
    with k that len show ?thesis by simp
  qed
  with t len show ?thesis
    by (simp add: predicted_labels_def torch_max_dim1_def)
qed

text \<open>
  C3. Each of the ten lines the tabular notebook prints carries, as predicted class, the
  \<open>np.argmax\<close> of that row of \<open>x_predict\<close>: 1 when the second probability is the
  greater, 0 otherwise, so the index of the larger of the two. In the CNN notebook the
  predicted label of each sample is the index (below 10) of the greatest of its ten scores,
  the first such index.
\<close>

theorem predicted_class_is_argmax:
  assumes "10 \<le> length x_predict" "10 \<le> length y_test"
    and "\<forall>r \<in> set x_predict. length r = 2"
    and "\<forall>r \<in> set outputs. length r = 10"
  shows "(\<exists>rows. print_predictions x_predict y_test = Inr rows \<and> length rows = 10
            \<and> (\<forall>i<10. \<exists>pc. rows ! i = (x_predict ! i ! 0, x_predict ! i ! 1, pc, y_test ! i)
                  \<and> np_argmax (x_predict ! i) = Inr pc
                  \<and> pc = (if x_predict ! i ! 0 < x_predict ! i ! 1 then 1 else 0)
                  \<and> x_predict ! i ! pc = max (x_predict ! i ! 0) (x_predict ! i ! 1)))
       \<and> (\<exists>predicted. predicted_labels outputs = Inr predicted
            \<and> length predicted = length outputs
            \<and> (\<forall>j<length outputs. predicted ! j < 10
                  \<and> outputs ! j ! (predicted ! j) = Max (set (outputs ! j))
                  \<and> (\<forall>k<predicted ! j. outputs ! j ! k < outputs ! j ! (predicted ! j))))"
proof
  have row: "print_row x_predict y_test i =
           Inr (x_predict ! i ! 0, x_predict ! i ! 1,
                (if x_predict ! i ! 0 < x_predict ! i ! 1 then 1 else 0), y_test ! i)
         \<and> np_argmax (x_predict ! i) = Inr (if x_predict ! i ! 0 < x_predict ! i ! 1 then 1 else 0)"
    if "i < 10" for i
  proof -
    from that assms have i: "i < length x_predict" "i < length y_test" by auto
    with assms(3) have l: "length (x_predict ! i) = 2" by simp
    then obtain a b where r: "x_predict ! i = [a, b]" using length2 by blast
    show ?thesis using print_row_binary [OF i l] by (simp add: r np_argmax_pair)
  qed
  then have "\<exists>y. print_row x_predict y_test i = Inr y" if "i \<in> set [0..<10]" for i
    using that by auto
  then obtain rows where rows: "print_predictions x_predict y_test = Inr rows"
    unfolding print_predictions_def using traverse_total by blast
  then have len: "length rows = 10"
    and each: "\<forall>i<10. print_row x_predict y_test i = Inr (rows ! i)"
    by (simp_all add: print_predictions_def traverse_Inr_iff del: upt_Suc)
  have "\<exists>pc. rows ! i = (x_predict ! i ! 0, x_predict ! i ! 1, pc, y_test ! i)
                  \<and> np_argmax (x_predict ! i) = Inr pc
                  \<and> pc = (if x_predict ! i ! 0 < x_predict ! i ! 1 then 1 else 0)
                  \<and> x_predict ! i ! pc = max (x_predict ! i ! 0) (x_predict ! i ! 1)"
    if "i < 10" for i
    using row [OF that] each that by (auto simp: max_def)
  with rows len show "\<exists>rows. print_predictions x_predict y_test = Inr rows \<and> length rows = 10
            \<and> (\<forall>i<10. \<exists>pc. rows ! i = (x_predict ! i ! 0, x_predict ! i ! 1, pc, y_test ! i)
                  \<and> np_argmax (x_predict ! i) = Inr pc
                  \<and> pc = (if x_predict ! i ! 0 < x_predict ! i ! 1 then 1 else 0)
                  \<and> x_predict ! i ! pc = max (x_predict ! i ! 0) (x_predict ! i ! 1))"
    by blast
next
  from assms(4) have ne: "\<forall>r \<in> set outputs. r \<noteq> []" by auto
  from predicted_labels_spec [OF ne] obtain p where p: "predicted_labels outputs = Inr p"
    "length p = length outputs" "\<forall>j<length outputs. np_argmax (outputs ! j) = Inr (p ! j)"
    by blast
  have "p ! j < 10 \<and> outputs ! j ! (p ! j) = Max (set (outputs ! j))
        \<and> (\<forall>k<p ! j. outputs ! j ! k < outputs ! j ! (p ! j))" if "j < length outputs" for j
  proof -
    from p(3) that have a: "np_argmax (outputs ! j) = Inr (p ! j)" by simp
    from that assms(4) have "length (outputs ! j) = 10" by simp
    with np_argmax_spec [OF a] np_argmax_Max [OF a] show ?thesis by simp
  qed
  with p show "\<exists>predicted. predicted_labels outputs = Inr predicted
            \<and> length predicted = length outputs
            \<and> (\<forall>j<length outputs. predicted ! j < 10
                  \<and> outputs ! j ! (predicted ! j) = Max (set (outputs ! j))
                  \<and> (\<forall>k<predicted ! j. outputs ! j ! k < outputs ! j ! (predicted ! j)))"
    by blast
qed

theorem predicted_class_is_argmax_witness:
  "(\<exists>rows. print_predictions
        [[0.9, 0.1], [0.2, 0.8], [0.5, 0.5], [1, 0], [0, 1],
         [0.3, 0.7], [0.6, 0.4], [0.1, 0.9], [0.45, 0.55], [0.75, 0.25 :: real]]
        [0, 1, 0, 0, 1, 1, 0, 1, 0, 0] = Inr rows
      \<and> rows ! 1 = (0.2, 0.8, 1, 1) \<and> rows ! 2 = (0.5, 0.5, 0, 0))
   \<and> (\<exists>predicted. predicted_labels [[0, 1, 5, 2, 5, -1, 3, 0.5, 4, 2 :: real]] = Inr predicted
      \<and> predicted ! 0 = 2)"
proof -
  let ?X = "[[0.9, 0.1], [0.2, 0.8], [0.5, 0.5], [1, 0], [0, 1],
         [0.3, 0.7], [0.6, 0.4], [0.1, 0.9], [0.45, 0.55], [0.75, 0.25 :: real]]"
  let ?Y = "[0, 1, 0, 0, 1, 1, 0, 1, 0, 0 :: nat]"
  let ?O = "[[0, 1, 5, 2, 5, -1, 3, 0.5, 4, 2 :: real]]"
  have h1: "10 \<le> length ?X" and h2: "10 \<le> length ?Y" by simp_all
  have h3: "\<forall>r \<in> set ?X. length r = 2" by simp
  have h4: "\<forall>r \<in> set ?O. length r = 10" by simp
  from predicted_class_is_argmax [OF h1 h2 h3 h4]
  obtain rows where
    r: "print_predictions ?X ?Y = Inr rows"
       "\<forall>i<10. \<exists>pc. rows ! i = (?X ! i ! 0, ?X ! i ! 1, pc, ?Y ! i)
            \<and> pc = (if ?X ! i ! 0 < ?X ! i ! 1 then 1 else 0)"
    by blast
  from r(2) have "rows ! 1 = (0.2, 0.8, 1, 1)" "rows ! 2 = (0.5, 0.5, 0, 0)"
    by fastforce+
  moreover have "predicted_labels ?O = Inr [2]"
    by (simp add: predicted_labels_def torch_max_dim1_def np_argmax_def)
  ultimately show ?thesis using r(1) by simp
qed

section \<open>Properties of the scaling cell\<close>

lemma n_features_wf: "matrix_wf d X \<Longrightarrow> n_features X = d"
  by (cases X) (auto simp: matrix_wf_def n_features_def)

lemma fit_wf:
  "matrix_wf d X \<Longrightarrow>
   fit self X = Inr (self \<lparr> stats := Some (map (\<lambda>j. mean (column j X)) [0..<d],
                                         map (\<lambda>j. std (column j X)) [0..<d]),
                          calls := calls self @ [Fit X] \<rparr>)"
  by (simp add: fit_def n_features_wf) (simp add: matrix_wf_def)

lemma transform_wf:
  "matrix_wf d X \<Longrightarrow> stats self = Some (mu, sigma) \<Longrightarrow> length mu = d \<Longrightarrow>
   transform self X = Inr (self \<lparr> calls := calls self @ [Transform X] \<rparr>, map (scale_row mu sigma) X)"
  by (simp add: transform_def matrix_wf_def)

lemma scaling_cell_wf:
  assumes "matrix_wf d X_train" "matrix_wf d X_test"
  shows "scaling_cell X_train X_test =
     Inr (\<lparr> stats = Some (map (\<lambda>j. mean (column j X_train)) [0..<d],
                          map (\<lambda>j. std (column j X_train)) [0..<d]),
            calls = [Fit X_train, Transform X_train, Transform X_test] \<rparr>,
          map (scale_row (map (\<lambda>j. mean (column j X_train)) [0..<d])
                         (map (\<lambda>j. std (column j X_train)) [0..<d])) X_train,
          map (scale_row (map (\<lambda>j. mean (column j X_train)) [0..<d])
                         (map (\<lambda>j. std (column j X_train)) [0..<d])) X_test)"
  unfolding scaling_cell_def Let_def
  by (simp add: fit_wf [OF assms(1)] transform_wf [OF assms(1)] transform_wf [OF assms(2)]
      StandardScaler_def)

text \<open>
  C1. On two splits with the same number of features the scaling cell runs to its end, and
  the calls made on the scaler are exactly \<open>fit(X_train)\<close>, \<open>transform(X_train)\<close>,
  \<open>transform(X_test)\<close>, in this order: one \<open>fit\<close>, on the training split, before any
  \<open>transform\<close>. The statistics the scaler holds are the column means and standard
  deviations of \<open>X_train\<close>, both splits are transformed with them, and replacing the test
  split by any other changes neither the statistics nor the transformed training split.
\<close>

theorem scaling_statistics_from_training_split:
  assumes "matrix_wf d X_train" "matrix_wf d X_test"
  shows "\<exists>sc X_train' X_test' mu sigma.
           scaling_cell X_train X_test = Inr (sc, X_train', X_test')
         \<and> calls sc = [Fit X_train, Transform X_train, Transform X_test]
         \<and> mu = map (\<lambda>j. mean (column j X_train)) [0..<d]
         \<and> sigma = map (\<lambda>j. std (column j X_train)) [0..<d]
         \<and> stats sc = Some (mu, sigma)
         \<and> X_train' = map (scale_row mu sigma) X_train
         \<and> X_test' = map (scale_row mu sigma) X_test
         \<and> (\<forall>X_other. matrix_wf d X_other \<longrightarrow>
               (\<exists>sc2 X_other'. scaling_cell X_train X_other = Inr (sc2, X_train', X_other')
                  \<and> stats sc2 = stats sc))"
  using scaling_cell_wf [OF assms] scaling_cell_wf [OF assms(1)] by simp


theorem scaling_statistics_from_training_split_witness:
  "matrix_wf 2 [[1, 10], [3, 30]] \<and> matrix_wf 2 [[5, 50]]
   \<and> (\<exists>sc X_train' X_test'. scaling_cell [[1, 10], [3, 30]] [[5, 50]] = Inr (sc, X_train', X_test')
         \<and> calls sc = [Fit [[1, 10], [3, 30]], Transform [[1, 10], [3, 30]], Transform [[5, 50]]])"
proof -
  have wf: "matrix_wf 2 [[1, 10], [3, 30]]" "matrix_wf 2 [[5, 50]]"
    by (simp_all add: matrix_wf_def)
  from scaling_statistics_from_training_split [OF wf] wf show ?thesis
    by blast
qed

lemma scale_row_nth:
  "length row = d \<Longrightarrow> length mu = d \<Longrightarrow> length sigma = d \<Longrightarrow> j < d \<Longrightarrow>
   scale_row mu sigma row ! j = (row ! j - mu ! j) / sigma ! j"
  by (simp add: scale_row_def)

lemma column_scaled:
  assumes "\<forall>row \<in> set X. length row = d" "length mu = d" "length sigma = d" "j < d"
  shows "column j (map (scale_row mu sigma) X) = map (\<lambda>x. (x - mu ! j) / sigma ! j) (column j X)"
  using assms by (simp add: column_def scale_row_nth)

lemma sum_list_shift_scale:
  "sum_list (map (\<lambda>x::real. (x - m) / s) xs) = (sum_list xs - real (length xs) * m) / s"
  by (induction xs) (simp_all add: diff_divide_distrib add_divide_distrib algebra_simps)

lemma mean_standardised:
  assumes "xs \<noteq> []"
  shows "mean (map (\<lambda>x. (x - mean xs) / s) xs) = 0"
proof -
  have "real (length xs) \<noteq> 0" using assms by simp
  then have "sum_list xs - real (length xs) * mean xs = 0"
    by (simp add: mean_def)
  then show ?thesis by (simp add: mean_def sum_list_shift_scale)
qed

lemma sum_list_div_const:
  "sum_list (map (\<lambda>x::real. f x / c) xs) = sum_list (map f xs) / (c::real)"
  by (induction xs) (simp_all add: add_divide_distrib)

lemma variance_nonneg: "0 \<le> variance xs"
  unfolding variance_def by (intro divide_nonneg_nonneg sum_list_nonneg) auto

lemma variance_standardised:
  assumes "xs \<noteq> []" "std xs \<noteq> 0"
  shows "variance (map (\<lambda>x. (x - mean xs) / std xs) xs) = 1"
proof -
  let ?ys = "map (\<lambda>x. (x - mean xs) / std xs) xs"
  have m0: "mean ?ys = 0" using mean_standardised [OF assms(1)] .
  have s2: "(std xs)\<^sup>2 = variance xs"
    by (simp add: std_def variance_nonneg)
  with assms(2) have v0: "variance xs \<noteq> 0" by auto
  have "sum_list (map (\<lambda>y. (y - mean ?ys)\<^sup>2) ?ys)
        = sum_list (map (\<lambda>x. (x - mean xs)\<^sup>2 / variance xs) xs)"
    unfolding m0 by (simp add: o_def power_divide s2)
  also have "\<dots> = sum_list (map (\<lambda>x. (x - mean xs)\<^sup>2) xs) / variance xs"
    by (rule sum_list_div_const)
  finally have "variance ?ys = sum_list (map (\<lambda>x. (x - mean xs)\<^sup>2) xs) / variance xs / real (length xs)"
    by (simp add: variance_def)
  also have "\<dots> = variance xs / variance xs"
    by (simp add: variance_def)
  finally show ?thesis using v0 by simp
qed

lemma std_of_variance_one: "variance ys = 1 \<Longrightarrow> std ys = 1"
  by (simp add: std_def)

lemma column_nonempty: "X \<noteq> [] \<Longrightarrow> column j X \<noteq> []"
  by (simp add: column_def)

text \<open>
  C2. After the scaling cell, every feature column of the transformed training split whose
  standard deviation was not zero has mean 0, variance 1 and standard deviation 1. The
  same does not hold of a test split: for every such training split there is a test split
  whose transformed column has a mean other than 0 and a variance other than 1. Arithmetic
  is exact (real numbers).
\<close>

theorem training_columns_standardised:
  assumes "matrix_wf d X_train" "matrix_wf d X_test" "j < d" "std (column j X_train) \<noteq> 0"
  shows "(\<exists>sc X_train' X_test'. scaling_cell X_train X_test = Inr (sc, X_train', X_test')
            \<and> mean (column j X_train') = 0
            \<and> variance (column j X_train') = 1
            \<and> std (column j X_train') = 1)
       \<and> (\<exists>X_other sc X_train' X_other'. matrix_wf d X_other
            \<and> scaling_cell X_train X_other = Inr (sc, X_train', X_other')
            \<and> mean (column j X_other') \<noteq> 0
            \<and> variance (column j X_other') \<noteq> 1)"
proof
  let ?mu = "map (\<lambda>j. mean (column j X_train)) [0..<d]"
  let ?sigma = "map (\<lambda>j. std (column j X_train)) [0..<d]"
  let ?xs = "column j X_train"
  have rows: "\<forall>row \<in> set X_train. length row = d" and ne: "X_train \<noteq> []"
    using assms(1) by (simp_all add: matrix_wf_def)
  have col: "column j (map (scale_row ?mu ?sigma) X_train) = map (\<lambda>x. (x - mean ?xs) / std ?xs) ?xs"
    using column_scaled [OF rows, of ?mu ?sigma j] assms(3) by simp
  have xs: "?xs \<noteq> []" using ne by (rule column_nonempty)
  have "mean (column j (map (scale_row ?mu ?sigma) X_train)) = 0"
    unfolding col using mean_standardised [OF xs] .
  moreover have v: "variance (column j (map (scale_row ?mu ?sigma) X_train)) = 1"
    unfolding col using variance_standardised [OF xs assms(4)] .
  moreover have "std (column j (map (scale_row ?mu ?sigma) X_train)) = 1"
    using v by (rule std_of_variance_one)
  ultimately show "\<exists>sc X_train' X_test'. scaling_cell X_train X_test = Inr (sc, X_train', X_test')
            \<and> mean (column j X_train') = 0
            \<and> variance (column j X_train') = 1
            \<and> std (column j X_train') = 1"
    using scaling_cell_wf [OF assms(1,2)] by simp
next
  let ?mu = "map (\<lambda>j. mean (column j X_train)) [0..<d]"
  let ?sigma = "map (\<lambda>j. std (column j X_train)) [0..<d]"
  let ?X = "[map (\<lambda>j. mean (column j X_train) + std (column j X_train)) [0..<d]]"
  have wf: "matrix_wf d ?X" by (simp add: matrix_wf_def)
  have "column j (map (scale_row ?mu ?sigma) ?X) = [1]"
    using assms(3,4) by (simp add: column_def scale_row_nth [where d = d])
  then have "mean (column j (map (scale_row ?mu ?sigma) ?X)) \<noteq> 0"
    "variance (column j (map (scale_row ?mu ?sigma) ?X)) \<noteq> 1"
    by (simp_all add: mean_def variance_def)
  then show "\<exists>X_other sc X_train' X_other'. matrix_wf d X_other
            \<and> scaling_cell X_train X_other = Inr (sc, X_train', X_other')
            \<and> mean (column j X_other') \<noteq> 0
            \<and> variance (column j X_other') \<noteq> 1"
    using scaling_cell_wf [OF assms(1) wf] wf by blast
qed

theorem training_columns_standardised_witness:
  "matrix_wf 2 [[1, 10], [3, 30]] \<and> matrix_wf 2 [[5, 50]] \<and> (0::nat) < 2
   \<and> std (column 0 [[1, 10], [3, 30]]) \<noteq> 0
   \<and> (\<exists>sc X_train' X_test'. scaling_cell [[1, 10], [3, 30]] [[5, 50]] = Inr (sc, X_train', X_test')
         \<and> mean (column 0 X_train') = 0 \<and> variance (column 0 X_train') = 1)"
proof -
  have wf: "matrix_wf 2 [[1, 10], [3, 30]]" "matrix_wf 2 [[5, 50]]"
    by (simp_all add: matrix_wf_def)
  have j: "(0::nat) < 2" by simp
  have sd: "std (column 0 [[1, 10], [3, 30]]) \<noteq> 0"
    by (simp add: std_def variance_def mean_def column_def)
  from training_columns_standardised [OF wf j sd]
  have "\<exists>sc X_train' X_test'.
          scaling_cell [[1, 10], [3, 30]] [[5, 50]] = Inr (sc, X_train', X_test')
        \<and> mean (column 0 X_train') = 0 \<and> variance (column 0 X_train') = 1"
    by blast
  with wf sd show ?thesis by simp
qed

section \<open>Properties of the class-by-class loop\<close>

lemma foldM_append: "foldM f (xs @ ys) s = bind_exn (foldM f xs s) (foldM f ys)"
  by (induction xs arbitrary: s) (auto simp: bind_exn_def split: sum.splits)

lemma count_sample_ok:
  assumes "i < length labels" "length c = length labels" "length labels \<noteq> 1"
    "labels ! i < 10" "length cc = 10" "length ct = 10"
  shows "count_sample labels c (cc, ct) i =
           Inr (cc[labels ! i := cc ! (labels ! i) + (if c ! i then 1 else 0)],
                ct[labels ! i := ct ! (labels ! i) + 1])"
  using assms by (simp add: count_sample_def squeeze_item_def Let_def)

lemma count_prefix:
  assumes "length c = length labels" "length labels \<noteq> 1" "\<forall>l \<in> set labels. l < 10"
    "length cc = 10" "length ct = 10" "n \<le> length labels"
  shows "\<exists>cc' ct'. foldM (count_sample labels c) [0..<n] (cc, ct) = Inr (cc', ct')
           \<and> length cc' = 10 \<and> length ct' = 10
           \<and> (\<forall>k<10. ct' ! k = ct ! k + real (count_list (take n labels) k))"
  using assms(6)
proof (induction n)
  case 0
  then show ?case using assms(4,5) by simp
next
  case (Suc n)
  then obtain cc' ct' where ih: "foldM (count_sample labels c) [0..<n] (cc, ct) = Inr (cc', ct')"
    "length cc' = 10" "length ct' = 10"
    "\<forall>k<10. ct' ! k = ct ! k + real (count_list (take n labels) k)"
    by auto
  from Suc.prems have n: "n < length labels" by simp
  with assms(3) have l: "labels ! n < 10" by simp
  have step: "count_sample labels c (cc', ct') n =
           Inr (cc'[labels ! n := cc' ! (labels ! n) + (if c ! n then 1 else 0)],
                ct'[labels ! n := ct' ! (labels ! n) + 1])"
    using count_sample_ok [OF n assms(1,2) l ih(2,3)] .
  have tk: "take (Suc n) labels = take n labels @ [labels ! n]"
    using n by (simp add: take_Suc_conv_app_nth)
  have "\<forall>k<10. (ct'[labels ! n := ct' ! (labels ! n) + 1]) ! k
          = ct ! k + real (count_list (take (Suc n) labels) k)"
    using ih(3,4) l by (auto simp: tk nth_list_update)
  then show ?case using ih(1,2,3) step by (simp add: foldM_append)
qed

lemma count_batch_full:
  assumes "length data = 4" "\<forall>l \<in> set (map snd data). l < 10" "\<forall>img. net img \<noteq> []"
    "length cc = 10" "length ct = 10"
  shows "\<exists>cc' ct'. count_batch net (cc, ct) data = Inr (cc', ct')
           \<and> length cc' = 10 \<and> length ct' = 10
           \<and> (\<forall>k<10. ct' ! k = ct ! k + real (count_list (map snd data) k))"
proof -
  have "\<forall>r \<in> set (map net (map fst data)). r \<noteq> []" using assms(3) by auto
  from predicted_labels_spec [OF this] obtain p where
    p: "predicted_labels (map net (map fst data)) = Inr p" "length p = length data"
    by auto
  let ?labels = "map snd data" and ?c = "map2 (=) p (map snd data)"
  have "length ?c = length ?labels" using p(2) by simp
  moreover have "length ?labels \<noteq> 1" using assms(1) by simp
  moreover have "4 \<le> length ?labels" using assms(1) by simp
  ultimately obtain cc' ct' where "foldM (count_sample ?labels ?c) [0..<4] (cc, ct) = Inr (cc', ct')"
    "length cc' = 10" "length ct' = 10"
    "\<forall>k<10. ct' ! k = ct ! k + real (count_list (take 4 ?labels) k)"
    using count_prefix [of ?c ?labels cc ct 4] assms(2,4,5) by blast
  then show ?thesis using p(1) assms(1) by (simp add: count_batch_def Let_def)
qed

lemma short_cases:
  "length (xs::'a list) < 4 \<Longrightarrow> xs = [] \<or> (\<exists>a. xs = [a]) \<or> (\<exists>a b. xs = [a, b]) \<or> (\<exists>a b c. xs = [a, b, c])"
  by (cases xs; simp; rename_tac y ys; case_tac ys; simp; rename_tac z zs; case_tac zs; simp)

lemma upt4: "[0..<4] = [0, 1, 2, 3]"
  by (simp add: upt_rec)

lemma count_batch_short:
  assumes "length data < 4" "\<forall>l \<in> set (map snd data). l < 10" "\<forall>img. net img \<noteq> []"
    "length cc = 10" "length ct = 10"
  shows "count_batch net (cc, ct) data = Inl IndexError"
proof -
  have "\<forall>r \<in> set (map net (map fst data)). r \<noteq> []" using assms(3) by auto
  from predicted_labels_spec [OF this] obtain p where
    p: "predicted_labels (map net (map fst data)) = Inr p" "length p = length data"
    by auto
  from short_cases [OF assms(1)] show ?thesis
  proof (elim disjE exE)
    assume "data = []"
    then show ?thesis using p by (simp add: count_batch_def upt4 count_sample_def)
  next
    fix a assume d: "data = [a]"
    with p(2) obtain q where "p = [q]" by (cases p) auto
    then show ?thesis using p(1) d assms(2,4)
      by (simp add: count_batch_def upt4 count_sample_def squeeze_item_def Let_def)
  next
    fix a b assume d: "data = [a, b]"
    with p(2) obtain q1 q2 where q: "p = [q1, q2]"
      by (cases p; simp; rename_tac y ys; case_tac ys; simp)
    show ?thesis using p(1) assms(2,4,5)
      by (simp add: count_batch_def upt4 count_sample_def squeeze_item_def Let_def d q)
  next
    fix a b c assume d: "data = [a, b, c]"
    with p(2) obtain q1 q2 q3 where q: "p = [q1, q2, q3]"
      by (cases p; simp; rename_tac y ys; case_tac ys; simp; rename_tac z zs; case_tac zs; simp)
    show ?thesis using p(1) assms(2,4,5)
      by (simp add: count_batch_def upt4 count_sample_def squeeze_item_def Let_def d q)
  qed
qed


lemma batches_unfold:
  "xs \<noteq> [] \<Longrightarrow> batches 4 xs = take 4 xs # batches 4 (drop 4 xs)"
  by (subst batches.simps) simp

lemma batches_Nil [simp]: "batches n [] = []"
  by (subst batches.simps) simp

lemma batches_full_iff:
  "(\<forall>b \<in> set (batches 4 xs). length b = 4) \<longleftrightarrow> 4 dvd length xs"
proof (induction xs rule: length_induct)
  case (1 xs)
  show ?case
  proof (cases "xs = []")
    case True
    then show ?thesis by simp
  next
    case ne: False
    show ?thesis
    proof (cases "4 \<le> length xs")
      case True
      have "length (drop 4 xs) < length xs" using ne by simp
      with 1 have ih: "(\<forall>b \<in> set (batches 4 (drop 4 xs)). length b = 4) \<longleftrightarrow> 4 dvd length (drop 4 xs)"
        by blast
      have "4 dvd length xs \<longleftrightarrow> 4 dvd (length xs - 4)" using True by presburger
      then show ?thesis using ih True by (simp add: batches_unfold [OF ne])
    next
      case False
      then have "\<not> 4 dvd length xs" using ne by (auto dest: dvd_imp_le)
      moreover have "length (take 4 xs) \<noteq> 4" using False by simp
      ultimately show ?thesis by (simp add: batches_unfold [OF ne])
    qed
  qed
qed

lemma batches_short_iff:
  "(\<exists>b \<in> set (batches 4 xs). length b < 4) \<longleftrightarrow> \<not> 4 dvd length xs"
proof -
  have "length b \<le> 4" if "b \<in> set (batches 4 xs)" for b
    using that
  proof (induction xs rule: length_induct)
    case (1 xs)
    show ?case
    proof (cases "xs = []")
      case True
      with 1 show ?thesis by simp
    next
      case False
      then have "length (drop 4 xs) < length xs" by simp
      with "1.IH" have "b \<in> set (batches 4 (drop 4 xs)) \<longrightarrow> length b \<le> 4" by blast
      with "1.prems" False show ?thesis by (auto simp: batches_unfold)
    qed
  qed
  then have "(\<exists>b \<in> set (batches 4 xs). length b < 4) \<longleftrightarrow> \<not> (\<forall>b \<in> set (batches 4 xs). length b = 4)"
    by (metis le_neq_implies_less less_irrefl)
  then show ?thesis by (simp add: batches_full_iff)
qed

lemma counts_loop:
  assumes "\<forall>img. net img \<noteq> []"
  shows "\<forall>l \<in> set (map snd xs). l < 10 \<Longrightarrow> length cc = 10 \<Longrightarrow> length ct = 10 \<Longrightarrow>
     (4 dvd length xs \<longrightarrow>
        (\<exists>cc' ct'. foldM (count_batch net) (batches 4 xs) (cc, ct) = Inr (cc', ct')
           \<and> length cc' = 10 \<and> length ct' = 10
           \<and> (\<forall>k<10. ct' ! k = ct ! k + real (count_list (map snd xs) k))))
   \<and> (\<not> 4 dvd length xs \<longrightarrow> foldM (count_batch net) (batches 4 xs) (cc, ct) = Inl IndexError)"
proof (induction xs arbitrary: cc ct rule: length_induct)
  case (1 xs)
  show ?case
  proof (cases "xs = []")
    case True
    then show ?thesis using 1 by simp
  next
    case ne: False
    show ?thesis
    proof (cases "4 \<le> length xs")
      case False
      then have short: "length (take 4 xs) < 4" by simp
      have nd: "\<not> 4 dvd length xs" using False ne by (auto dest: dvd_imp_le)
      have "\<forall>l \<in> set (map snd (take 4 xs)). l < 10"
        using "1.prems"(1) by (auto dest: in_set_takeD)
      from count_batch_short [OF short this assms "1.prems"(2,3)] nd
      show ?thesis by (simp add: batches_unfold [OF ne])
    next
      case True
      then have full: "length (take 4 xs) = 4" by simp
      have lt: "\<forall>l \<in> set (map snd (take 4 xs)). l < 10"
        using "1.prems"(1) by (auto dest: in_set_takeD)
      have ld: "\<forall>l \<in> set (map snd (drop 4 xs)). l < 10"
        using "1.prems"(1) by (auto dest: in_set_dropD)
      from count_batch_full [OF full lt assms "1.prems"(2,3)] obtain cc1 ct1 where
        b: "count_batch net (cc, ct) (take 4 xs) = Inr (cc1, ct1)" "length cc1 = 10" "length ct1 = 10"
          "\<forall>k<10. ct1 ! k = ct ! k + real (count_list (map snd (take 4 xs)) k)"
        by blast
      have "length (drop 4 xs) < length xs" using ne by simp
      with "1.IH" ld b(2,3) have ih:
        "(4 dvd length (drop 4 xs) \<longrightarrow>
            (\<exists>cc' ct'. foldM (count_batch net) (batches 4 (drop 4 xs)) (cc1, ct1) = Inr (cc', ct')
               \<and> length cc' = 10 \<and> length ct' = 10
               \<and> (\<forall>k<10. ct' ! k = ct1 ! k + real (count_list (map snd (drop 4 xs)) k))))
         \<and> (\<not> 4 dvd length (drop 4 xs) \<longrightarrow>
               foldM (count_batch net) (batches 4 (drop 4 xs)) (cc1, ct1) = Inl IndexError)"
        by blast
      have dv: "4 dvd (length xs - 4) \<longleftrightarrow> 4 dvd length xs"
        using True by presburger
      have cnt: "count_list (map snd xs) k
                   = count_list (map snd (take 4 xs)) k + count_list (map snd (drop 4 xs)) k" for k
      proof -
        have "map snd xs = map snd (take 4 xs) @ map snd (drop 4 xs)"
          by (simp flip: map_append)
        then show ?thesis by (simp only: count_list_append)
      qed
      have run: "foldM (count_batch net) (batches 4 xs) (cc, ct)
                   = foldM (count_batch net) (batches 4 (drop 4 xs)) (cc1, ct1)"
        by (simp add: batches_unfold [OF ne] b(1))
      show ?thesis
        unfolding run using ih b(4) by (auto simp: dv cnt)
    qed
  qed
qed


lemma traverse_raises:
  assumes "\<exists>x \<in> set xs. \<exists>e. f x = Inl e" "\<forall>x \<in> set xs. \<forall>e. f x = Inl e \<longrightarrow> e = E"
  shows "traverse f xs = Inl E"
  using assms
proof (induction xs)
  case Nil
  then show ?case by simp
next
  case (Cons x xs)
  show ?case
  proof (cases "f x")
    case (Inl e)
    with Cons.prems(2) show ?thesis by simp
  next
    case (Inr y)
    with Cons.prems have "\<exists>x \<in> set xs. \<exists>e. f x = Inl e" by auto
    with Cons.IH Cons.prems(2) Inr show ?thesis by simp
  qed
qed

lemma class_counts_eq:
  "class_counts net testset = foldM (count_batch net) (batches 4 testset) (replicate 10 0, replicate 10 0)"
  by (simp add: class_counts_def loader_batches_def testloader_def DataLoader_def)

lemma loader_batches_test: "loader_batches (testloader testset) = batches 4 testset"
  by (simp add: loader_batches_def testloader_def DataLoader_def)

text \<open>
  C10. The test loader cuts the test set into batches of four, and 4 divides 10000. When
  the batch size divides the number of test samples every batch holds exactly four, the
  indexing \<open>labels[i]\<close>, \<open>c[i]\<close> for \<open>i\<close> in \<open>range(4)\<close> stays in bounds and the
  loop ends with \<open>class_total[k]\<close> the number of test samples of class \<open>k\<close>; a batch
  of fewer than four samples makes the loop raise \<open>IndexError\<close>. The divisions of the
  report are then defined when each of the ten classes occurs in the test set, and raise
  \<open>ZeroDivisionError\<close> when one does not. The network returns ten scores per image and
  the labels are class indices below ten.
\<close>

theorem class_loop_in_bounds:
  assumes "\<forall>img. length (net img) = 10" and "\<forall>l \<in> set (map snd testset). l < 10"
  shows "4 dvd test_images
       \<and> (4 dvd length testset \<longrightarrow>
            (\<forall>b \<in> set (loader_batches (testloader testset)). length b = 4)
          \<and> (\<exists>cc ct. class_counts net testset = Inr (cc, ct)
                \<and> (\<forall>k<10. ct ! k = real (count_list (map snd testset) k))))
       \<and> ((\<exists>b \<in> set (loader_batches (testloader testset)). length b < 4) \<longrightarrow>
            class_counts net testset = Inl IndexError)
       \<and> (4 dvd length testset \<and> (\<forall>k<10. k \<in> set (map snd testset)) \<longrightarrow>
            (\<exists>accs. class_report net testset = Inr accs \<and> length accs = 10))
       \<and> (4 dvd length testset \<and> (\<exists>k<10. k \<notin> set (map snd testset)) \<longrightarrow>
            class_report net testset = Inl ZeroDivisionError)"
proof -
  have net: "\<forall>img. net img \<noteq> []" using assms(1) by (metis length_0_conv zero_neq_numeral)
  note loop = counts_loop [OF net assms(2), of "replicate 10 0" "replicate 10 0", simplified]
  have c1: "4 dvd test_images" by (simp add: test_images_def)
  have c2: "(\<forall>b \<in> set (loader_batches (testloader testset)). length b = 4)
          \<and> (\<exists>cc ct. class_counts net testset = Inr (cc, ct) \<and> length cc = 10 \<and> length ct = 10
                \<and> (\<forall>k<10. ct ! k = real (count_list (map snd testset) k)))"
    if "4 dvd length testset"
    using that loop by (simp add: loader_batches_test batches_full_iff class_counts_eq)
  have c3: "class_counts net testset = Inl IndexError"
    if "\<exists>b \<in> set (loader_batches (testloader testset)). length b < 4"
    using that loop by (simp add: loader_batches_test batches_short_iff class_counts_eq)
  have c4: "\<exists>accs. class_report net testset = Inr accs \<and> length accs = 10"
    if d: "4 dvd length testset" and all: "\<forall>k<10. k \<in> set (map snd testset)"
  proof -
    from c2 [OF d] obtain cc ct where r: "class_counts net testset = Inr (cc, ct)"
      "length cc = 10" "length ct = 10" "\<forall>k<10. ct ! k = real (count_list (map snd testset) k)"
      by blast
    have "ct ! k \<noteq> 0" if "k < 10" for k
      using r(4) all that by (simp add: count_list_0_iff)
    then have "\<exists>y. class_accuracy (cc, ct) i = Inr y" if "i \<in> set [0..<10]" for i
      using that r(2,3) by (simp add: class_accuracy_def classes_def)
    then obtain accs where a: "traverse (class_accuracy (cc, ct)) [0..<10] = Inr accs"
      using traverse_total by blast
    then have "length accs = 10" by (simp add: traverse_Inr_iff)
    with a r(1) show ?thesis by (simp add: class_report_def)
  qed
  have c5: "class_report net testset = Inl ZeroDivisionError"
    if d: "4 dvd length testset" and miss: "\<exists>k<10. k \<notin> set (map snd testset)"
  proof -
    from c2 [OF d] obtain cc ct where r: "class_counts net testset = Inr (cc, ct)"
      "length cc = 10" "length ct = 10" "\<forall>k<10. ct ! k = real (count_list (map snd testset) k)"
      by blast
    from miss obtain k where k: "k < 10" "k \<notin> set (map snd testset)" by blast
    with r(4) have "ct ! k = 0" by simp
    with k(1) r(2,3) have "class_accuracy (cc, ct) k = Inl ZeroDivisionError"
      by (simp add: class_accuracy_def classes_def)
    with k(1) have "\<exists>x \<in> set [0..<10]. \<exists>e. class_accuracy (cc, ct) x = Inl e" by auto
    moreover have "\<forall>x \<in> set [0..<10]. \<forall>e. class_accuracy (cc, ct) x = Inl e \<longrightarrow> e = ZeroDivisionError"
      using r(2,3) by (auto simp: class_accuracy_def classes_def split: if_splits)
    ultimately have "traverse (class_accuracy (cc, ct)) [0..<10] = Inl ZeroDivisionError"
      by (rule traverse_raises)
    with r(1) show ?thesis by (simp add: class_report_def)
  qed
  from c1 c2 c3 c4 c5 show ?thesis by blast
qed

theorem class_loop_in_bounds_witness:
  "(\<exists>accs. class_report (\<lambda>img::nat. replicate 10 0)
       [(0, 0), (1, 1), (2, 2), (3, 3), (4, 4), (5, 5), (6, 6), (7, 7), (8, 8), (9, 9),
        (10, 0), (11, 1)] = Inr accs \<and> length accs = 10)
   \<and> class_counts (\<lambda>img::nat. replicate 10 0) [(0, 0), (1, 1), (2, 2), (3, 3), (4, 4)]
       = Inl IndexError
   \<and> class_report (\<lambda>img::nat. replicate 10 0) [(0, 0), (1, 1), (2, 2), (3, 3)]
       = Inl ZeroDivisionError"
proof -
  let ?net = "\<lambda>img::nat. replicate 10 (0::real)"
  let ?t12 = "[(0, 0), (1, 1), (2, 2), (3, 3), (4, 4), (5, 5), (6, 6), (7, 7), (8, 8), (9, 9),
        (10, 0), (11, 1)] :: (nat \<times> nat) list"
  let ?t5 = "[(0, 0), (1, 1), (2, 2), (3, 3), (4, 4)] :: (nat \<times> nat) list"
  let ?t4 = "[(0, 0), (1, 1), (2, 2), (3, 3)] :: (nat \<times> nat) list"
  have net: "\<forall>img. length (?net img) = 10" by simp
  have l12: "\<forall>l \<in> set (map snd ?t12). l < 10" by simp
  have l5: "\<forall>l \<in> set (map snd ?t5). l < 10" by simp
  have l4: "\<forall>l \<in> set (map snd ?t4). l < 10" by simp
  have len12: "length ?t12 = 12" by simp
  have d12: "4 dvd length ?t12" unfolding len12 by simp
  have all12: "\<forall>k<10. k \<in> set (map snd ?t12)"
  proof (intro allI impI)
    fix k :: nat assume "k < 10"
    then have "k = 0 \<or> k = 1 \<or> k = 2 \<or> k = 3 \<or> k = 4 \<or> k = 5 \<or> k = 6 \<or> k = 7 \<or> k = 8 \<or> k = 9"
      by arith
    then show "k \<in> set (map snd ?t12)" by auto
  qed
  have short5: "\<exists>b \<in> set (loader_batches (testloader ?t5)). length b < 4"
    by (simp add: loader_batches_test batches_unfold)
  have len4: "length ?t4 = 4" by simp
  have d4: "4 dvd length ?t4" unfolding len4 by simp
  have miss4: "\<exists>k<10. k \<notin> set (map snd ?t4)"
    by (rule exI [of _ 4]) simp
  from class_loop_in_bounds [OF net l12] d12 all12
  have "\<exists>accs. class_report ?net ?t12 = Inr accs \<and> length accs = 10" by blast
  moreover from class_loop_in_bounds [OF net l5] short5
  have "class_counts ?net ?t5 = Inl IndexError" by blast
  moreover from class_loop_in_bounds [OF net l4] d4 miss4
  have "class_report ?net ?t4 = Inl ZeroDivisionError" by blast
  ultimately show ?thesis by blast
qed

section \<open>Properties of the cells\<close>

lemma cifar_present_shown [simp]:
  "cifar_present r (w \<lparr> shown := x \<rparr>) = cifar_present r w"
  by (simp add: cifar_present_def)

lemma exec_files:
  "\<not> may_write s \<Longrightarrow> files (fst (exec lib k s w)) = files w"
  by (cases s; cases "lib k")
     (auto simp: exec_def show_output_def split: option.splits)

lemma exec_raise_keeps_world: "exec lib k s w = (w', Some e) \<Longrightarrow> w' = w"
  by (auto simp: exec_def split: option.splits answer.splits)

lemma run_files:
  "\<forall>s \<in> set c. \<not> may_write s \<Longrightarrow> files (fst (run lib k c w)) = files w"
proof (induction c arbitrary: k w)
  case Nil
  then show ?case by simp
next
  case (Cons s c)
  obtain w' r where ex: "exec lib k s w = (w', r)" by (cases "exec lib k s w")
  with exec_files [of s lib k w] Cons.prems have f: "files w' = files w" by simp
  show ?case
  proof (cases r)
    case None
    from Cons.prems have "\<forall>s \<in> set c. \<not> may_write s" by simp
    from Cons.IH [OF this, of "Suc k" w'] have "files (fst (run lib (Suc k) c w')) = files w'" .
    with ex None f show ?thesis by simp
  next
    case (Some e)
    with ex f show ?thesis by simp
  qed
qed

lemma no_write_train_step: "\<forall>s \<in> set (train_step i). \<not> may_write s"
  by (auto simp: train_step_def)

lemma no_write_repeat:
  "\<forall>s \<in> set body. \<not> may_write s \<Longrightarrow> \<forall>s \<in> set (repeat n body). \<not> may_write s"
  by (auto simp: repeat_def)

lemma no_write_append:
  "\<forall>s \<in> set xs. \<not> may_write s \<Longrightarrow> \<forall>s \<in> set ys. \<not> may_write s \<Longrightarrow>
   \<forall>s \<in> set (xs @ ys). \<not> may_write s"
  by auto

lemma no_write_tab:
  "\<forall>s \<in> set tab_imports. \<not> may_write s"
  "\<forall>s \<in> set tab_load. \<not> may_write s"
  "\<forall>s \<in> set tab_features. \<not> may_write s"
  "\<forall>s \<in> set tab_labels. \<not> may_write s"
  "\<forall>s \<in> set tab_split. \<not> may_write s"
  "\<forall>s \<in> set tab_scale. \<not> may_write s"
  "\<forall>s \<in> set tab_classifier. \<not> may_write s"
  "\<forall>s \<in> set tab_fit. \<not> may_write s"
  "\<forall>s \<in> set tab_cross_val. \<not> may_write s"
  "\<forall>s \<in> set tab_predict. \<not> may_write s"
  "\<forall>s \<in> set tab_roc. \<not> may_write s"
  "\<forall>s \<in> set tab_roc_plot. \<not> may_write s"
  "\<forall>s \<in> set tab_contour. \<not> may_write s"
  by (simp_all add: tab_imports_def tab_load_def tab_features_def tab_labels_def tab_split_def
      tab_scale_def tab_classifier_def tab_fit_def tab_cross_val_def tab_predict_def
      tab_roc_def tab_roc_plot_def tab_contour_def)

lemma no_write_tab_print: "\<forall>s \<in> set tab_print. \<not> may_write s"
  unfolding tab_print_def
  by (intro no_write_append no_write_repeat) simp_all

lemma no_write_tabular:
  assumes "c \<in> set tabular_cells"
  shows "\<forall>s \<in> set c. \<not> may_write s"
proof -
  from assms have "c = tab_imports \<or> c = tab_load \<or> c = tab_features \<or> c = tab_labels
      \<or> c = tab_split \<or> c = tab_scale \<or> c = tab_classifier \<or> c = tab_fit
      \<or> c = tab_cross_val \<or> c = tab_predict \<or> c = tab_print \<or> c = tab_roc
      \<or> c = tab_roc_plot \<or> c = tab_contour"
    by (simp only: tabular_cells_def list.set insert_iff empty_iff) blast
  then show ?thesis
    using no_write_tab no_write_tab_print by (elim disjE) (simp_all only:)
qed

lemma no_write_cnn_simple:
  "\<forall>s \<in> set cnn_imports. \<not> may_write s"
  "\<forall>s \<in> set cnn_net. \<not> may_write s"
  "\<forall>s \<in> set cnn_hand_count. \<not> may_write s"
  "\<forall>s \<in> set cnn_count. \<not> may_write s"
  "\<forall>s \<in> set cnn_transform. \<not> may_write s"
  "\<forall>s \<in> set cnn_def_imshow. \<not> may_write s"
  "\<forall>s \<in> set imshow_body. \<not> may_write s"
  "\<forall>s \<in> set cnn_first_batch. \<not> may_write s"
  "\<forall>s \<in> set cnn_criterion. \<not> may_write s"
  "\<forall>s \<in> set cnn_optimizer. \<not> may_write s"
  "\<forall>s \<in> set cnn_outputs. \<not> may_write s"
  "\<forall>s \<in> set cnn_predicted. \<not> may_write s"
  "\<forall>s \<in> set cnn_intermediate. \<not> may_write s"
  by (simp_all add: cnn_imports_def cnn_net_def cnn_hand_count_def cnn_count_def
      cnn_transform_def cnn_def_imshow_def imshow_body_def cnn_first_batch_def
      cnn_criterion_def cnn_optimizer_def cnn_outputs_def cnn_predicted_def
      cnn_intermediate_def)

lemma no_write_train_steps: "\<forall>s \<in> set (concat (map train_step is)). \<not> may_write s"
  using no_write_train_step by auto

lemma no_write_cnn_loops:
  "\<forall>s \<in> set cnn_named_parameters. \<not> may_write s"
  "\<forall>s \<in> set cnn_print_parameters. \<not> may_write s"
  "\<forall>s \<in> set cnn_show_batch. \<not> may_write s"
  "\<forall>s \<in> set (cnn_train n). \<not> may_write s"
  "\<forall>s \<in> set cnn_test_batch. \<not> may_write s"
  "\<forall>s \<in> set (cnn_accuracy n). \<not> may_write s"
  "\<forall>s \<in> set (cnn_class_accuracy n). \<not> may_write s"
  "\<forall>s \<in> set cnn_filter_plot. \<not> may_write s"
  unfolding cnn_named_parameters_def cnn_print_parameters_def cnn_show_batch_def cnn_train_def
    cnn_test_batch_def cnn_accuracy_def cnn_class_accuracy_def cnn_filter_plot_def
  by (intro no_write_append no_write_repeat no_write_train_steps no_write_cnn_simple; simp)+

lemma no_write_cnn:
  assumes "c \<in> set (cnn_cells n_train n_test)" "c \<noteq> cnn_datasets"
  shows "\<forall>s \<in> set c. \<not> may_write s"
proof -
  from assms(1) have "c = cnn_imports \<or> c = cnn_net \<or> c = cnn_named_parameters
      \<or> c = cnn_hand_count \<or> c = cnn_count \<or> c = cnn_print_parameters \<or> c = cnn_transform
      \<or> c = cnn_datasets \<or> c = cnn_def_imshow \<or> c = cnn_first_batch \<or> c = cnn_show_batch
      \<or> c = cnn_criterion \<or> c = cnn_optimizer \<or> c = cnn_train n_train \<or> c = cnn_test_batch
      \<or> c = cnn_outputs \<or> c = cnn_predicted \<or> c = cnn_accuracy n_test
      \<or> c = cnn_class_accuracy n_test \<or> c = cnn_intermediate \<or> c = cnn_filter_plot"
    by (simp only: cnn_cells_def list.set insert_iff empty_iff) blast
  then show ?thesis
    using assms(2) no_write_cnn_simple no_write_cnn_loops by (elim disjE) simp_all
qed

lemma exec_files_bounded:
  assumes "may_write s \<longrightarrow> (\<exists>t. s = CIFAR10 R t True)"
  shows "files w \<subseteq> files (fst (exec lib k s w))
       \<and> files (fst (exec lib k s w)) \<subseteq> files w \<union> cifar_files R"
proof (cases "may_write s")
  case False
  then show ?thesis using exec_files [of s lib k w] by auto
next
  case True
  with assms obtain t where "s = CIFAR10 R t True" by blast
  then show ?thesis
    by (cases "lib k") (auto simp: exec_def show_output_def)
qed

lemma run_files_bounded:
  assumes "\<forall>s \<in> set c. may_write s \<longrightarrow> (\<exists>t. s = CIFAR10 R t True)"
  shows "files w \<subseteq> files (fst (run lib k c w))
       \<and> files (fst (run lib k c w)) \<subseteq> files w \<union> cifar_files R"
  using assms
proof (induction c arbitrary: k w)
  case Nil
  then show ?case by simp
next
  case (Cons s c)
  obtain w' r where ex: "exec lib k s w = (w', r)" by (cases "exec lib k s w")
  from Cons.prems have "may_write s \<longrightarrow> (\<exists>t. s = CIFAR10 R t True)" by simp
  from exec_files_bounded [OF this, of w lib k] ex
  have b: "files w \<subseteq> files w'" "files w' \<subseteq> files w \<union> cifar_files R" by simp_all
  show ?case
  proof (cases r)
    case (Some e)
    with ex b show ?thesis by simp
  next
    case None
    from Cons.prems have "\<forall>s \<in> set c. may_write s \<longrightarrow> (\<exists>t. s = CIFAR10 R t True)" by simp
    from Cons.IH [OF this, of w' "Suc k"]
    have "files w' \<subseteq> files (fst (run lib (Suc k) c w'))"
      "files (fst (run lib (Suc k) c w')) \<subseteq> files w' \<union> cifar_files R" by simp_all
    with b have "files w \<subseteq> files (fst (run lib (Suc k) c w'))"
      "files (fst (run lib (Suc k) c w')) \<subseteq> files w \<union> cifar_files R" by auto
    with ex None show ?thesis by simp
  qed
qed

lemma cnn_datasets_writers:
  "\<forall>s \<in> set cnn_datasets. may_write s \<longrightarrow> (\<exists>t. s = CIFAR10 ''./'' t True)"
  by (auto simp: cnn_datasets_def)

lemma cnn_datasets_present:
  assumes "cifar_present ''./'' w"
  shows "files (fst (run_cell lib cnn_datasets w)) = files w"
proof -
  have sub: "cifar_batch_files ''./'' \<subseteq> files w" using assms by (simp add: cifar_present_def)
  have ex: "files (fst (exec lib k s w')) = files w'"
    if "cifar_present ''./'' w'" "may_write s \<longrightarrow> (\<exists>t. s = CIFAR10 ''./'' t True)" for k s w'
  proof (cases "may_write s")
    case False
    then show ?thesis by (rule exec_files)
  next
    case True
    with that(2) obtain t where "s = CIFAR10 ''./'' t True" by blast
    then show ?thesis using that(1)
      by (cases "lib k") (auto simp: exec_def show_output_def)
  qed
  have "files (fst (run lib k c w')) = files w'"
    if "cifar_present ''./'' w'" "\<forall>s \<in> set c. may_write s \<longrightarrow> (\<exists>t. s = CIFAR10 ''./'' t True)"
    for k c w'
    using that
  proof (induction c arbitrary: k w')
    case Nil
    then show ?case by simp
  next
    case (Cons s c)
    obtain w'' r where e: "exec lib k s w' = (w'', r)" by (cases "exec lib k s w'")
    from Cons.prems have "may_write s \<longrightarrow> (\<exists>t. s = CIFAR10 ''./'' t True)" by simp
    from ex [OF Cons.prems(1) this, of k] e have f: "files w'' = files w'" by simp
    then have p: "cifar_present ''./'' w''" using Cons.prems(1) by (simp add: cifar_present_def)
    show ?case
    proof (cases r)
      case (Some x)
      with e f show ?thesis by simp
    next
      case None
      from Cons.prems have "\<forall>s \<in> set c. may_write s \<longrightarrow> (\<exists>t. s = CIFAR10 ''./'' t True)" by simp
      from Cons.IH [OF p this, of "Suc k"] have "files (fst (run lib (Suc k) c w'')) = files w''" .
      with e None f show ?thesis by simp
    qed
  qed
  from this [OF assms cnn_datasets_writers] show ?thesis by (simp add: run_cell_def)
qed

lemma cnn_datasets_absent:
  assumes "\<not> cifar_present ''./'' w" "lib 0 = Returns ws"
  shows "files (fst (run_cell lib cnn_datasets w)) = files w \<union> cifar_files ''./''"
proof -
  let ?w1 = "show_output Stdout (w \<lparr> shown := shown w @ map Stderr ws,
                                      files := files w \<union> cifar_files ''./'' \<rparr>)"
  let ?rest = "[Lib ''trainloader = DataLoader(trainset, batch_size=4, shuffle=True, num_workers=2)'',
      CIFAR10 ''./'' False True,
      Lib ''testloader = DataLoader(testset, batch_size=4, shuffle=False, num_workers=2)'',
      Lib ''classes = (plane, car, bird, cat, deer, dog, frog, horse, ship, truck)'']"
  have e: "exec lib 0 (CIFAR10 ''./'' True True) w = (?w1, None)"
    using assms by (simp add: exec_def)
  have r: "run_cell lib cnn_datasets w = run lib (Suc 0) ?rest ?w1"
    unfolding run_cell_def cnn_datasets_def by (simp add: e)
  have "\<forall>s \<in> set ?rest. may_write s \<longrightarrow> (\<exists>t. s = CIFAR10 ''./'' t True)" by auto
  from run_files_bounded [OF this, of ?w1 lib "Suc 0"]
  have "files ?w1 \<subseteq> files (fst (run lib (Suc 0) ?rest ?w1))"
    "files (fst (run lib (Suc 0) ?rest ?w1)) \<subseteq> files ?w1 \<union> cifar_files ''./''" by blast+
  moreover have "files ?w1 = files w \<union> cifar_files ''./''" by (simp add: show_output_def)
  ultimately show ?thesis unfolding r by auto
qed

text \<open>
  C5, as the notebooks have it. Every cell of the tabular notebook and every cell of the
  CNN notebook but one leaves the files on disk as they were, whatever the library calls
  answer. The exception is the cell that builds the datasets: \<open>CIFAR10\<close> with
  \<open>root='./'\<close> and \<open>download=True\<close> only ever adds files, all of them CIFAR-10
  files under \<open>./\<close>; it adds none when the batch files are already there, and it stores
  the archive and the extracted files when they are not and the call returns.
\<close>

theorem only_the_dataset_cell_writes_files:
  assumes "c \<in> set (tabular_cells @ cnn_cells n_train n_test)"
  shows "(c \<noteq> cnn_datasets \<longrightarrow> files (fst (run_cell lib c w)) = files w)
       \<and> (c = cnn_datasets \<longrightarrow>
            files w \<subseteq> files (fst (run_cell lib c w))
          \<and> files (fst (run_cell lib c w)) \<subseteq> files w \<union> cifar_files ''./''
          \<and> (cifar_present ''./'' w \<longrightarrow> files (fst (run_cell lib c w)) = files w)
          \<and> (\<not> cifar_present ''./'' w \<and> (\<exists>ws. lib 0 = Returns ws) \<longrightarrow>
                files (fst (run_cell lib c w)) = files w \<union> cifar_files ''./''))"
proof (intro conjI impI)
  assume ne: "c \<noteq> cnn_datasets"
  from assms have "c \<in> set tabular_cells \<or> c \<in> set (cnn_cells n_train n_test)" by simp
  then have "\<forall>s \<in> set c. \<not> may_write s"
    using no_write_tabular no_write_cnn [OF _ ne] by blast
  then show "files (fst (run_cell lib c w)) = files w"
    unfolding run_cell_def by (rule run_files)
next
  assume c: "c = cnn_datasets"
  from run_files_bounded [OF cnn_datasets_writers, of w lib 0]
  show "files w \<subseteq> files (fst (run_cell lib c w))"
    and "files (fst (run_cell lib c w)) \<subseteq> files w \<union> cifar_files ''./''"
    by (simp_all add: c run_cell_def)
next
  assume "c = cnn_datasets" "cifar_present ''./'' w"
  then show "files (fst (run_cell lib c w)) = files w"
    using cnn_datasets_present by simp
next
  assume "c = cnn_datasets" "\<not> cifar_present ''./'' w \<and> (\<exists>ws. lib 0 = Returns ws)"
  then show "files (fst (run_cell lib c w)) = files w \<union> cifar_files ''./''"
    using cnn_datasets_absent by blast
qed

theorem only_the_dataset_cell_writes_files_witness:
  "tab_load \<in> set (tabular_cells @ cnn_cells 1 1) \<and> tab_load \<noteq> cnn_datasets
   \<and> files (fst (run_cell quiet_library tab_load \<lparr> files = {''data.csv''}, shown = [] \<rparr>))
       = {''data.csv''}
   \<and> cnn_datasets \<in> set (tabular_cells @ cnn_cells 1 1)
   \<and> \<not> cifar_present ''./'' empty_disk \<and> (\<exists>ws. quiet_library 0 = Returns ws)
   \<and> files (fst (run_cell quiet_library cnn_datasets empty_disk)) = cifar_files ''./''
   \<and> cifar_present ''./'' \<lparr> files = cifar_files ''./'', shown = [] \<rparr>
   \<and> files (fst (run_cell quiet_library cnn_datasets \<lparr> files = cifar_files ''./'', shown = [] \<rparr>))
       = cifar_files ''./''"
proof -
  have m1: "tab_load \<in> set (tabular_cells @ cnn_cells 1 1)"
    by (simp add: tabular_cells_def)
  have ne: "tab_load \<noteq> cnn_datasets"
    by (simp add: tab_load_def cnn_datasets_def)
  have m2: "cnn_datasets \<in> set (tabular_cells @ cnn_cells 1 1)"
    by (simp add: cnn_cells_def)
  have ab: "\<not> cifar_present ''./'' empty_disk"
    by (simp add: cifar_present_def cifar_batch_files_def empty_disk_def)
  have q: "\<exists>ws. quiet_library 0 = Returns ws"
    by (simp add: quiet_library_def)
  have pr: "cifar_present ''./'' \<lparr> files = cifar_files ''./'', shown = [] \<rparr>"
    by (auto simp: cifar_present_def cifar_files_def)
  from only_the_dataset_cell_writes_files [OF m1, where lib = quiet_library
      and w = "\<lparr> files = {''data.csv''}, shown = [] \<rparr>"] ne
  have a: "files (fst (run_cell quiet_library tab_load \<lparr> files = {''data.csv''}, shown = [] \<rparr>))
       = {''data.csv''}" by simp
  from only_the_dataset_cell_writes_files [OF m2, where lib = quiet_library and w = empty_disk] ab q
  have b: "files (fst (run_cell quiet_library cnn_datasets empty_disk)) = cifar_files ''./''"
    by (simp add: empty_disk_def)
  from only_the_dataset_cell_writes_files [OF m2, where lib = quiet_library
      and w = "\<lparr> files = cifar_files ''./'', shown = [] \<rparr>"] pr
  have c: "files (fst (run_cell quiet_library cnn_datasets \<lparr> files = cifar_files ''./'', shown = [] \<rparr>))
       = cifar_files ''./''" by simp
  from m1 ne a m2 ab q b pr c show ?thesis by blast
qed

text \<open>
  C5, as the claim states it, fails: on a disk without the data the dataset cell leaves
  files behind.
\<close>

theorem dataset_cell_writes_files:
  "files (fst (run_cell quiet_library cnn_datasets empty_disk)) \<noteq> files empty_disk"
proof -
  have "\<not> cifar_present ''./'' empty_disk"
    by (simp add: cifar_present_def cifar_batch_files_def empty_disk_def)
  moreover have "quiet_library 0 = Returns []" by (simp add: quiet_library_def)
  ultimately have "files (fst (run_cell quiet_library cnn_datasets empty_disk))
      = files empty_disk \<union> cifar_files ''./''"
    by (rule cnn_datasets_absent)
  then show ?thesis by (simp add: empty_disk_def cifar_files_def)
qed

lemma run_append_ok:
  "run lib k pre w = (w', None) \<Longrightarrow> run lib k (pre @ post) w = run lib (k + length pre) post w'"
proof (induction pre arbitrary: k w)
  case Nil
  then show ?case by simp
next
  case (Cons s pre)
  obtain w1 r where ex: "exec lib k s w = (w1, r)" by (cases "exec lib k s w")
  show ?case
  proof (cases r)
    case None
    with ex Cons.prems have "run lib (Suc k) pre w1 = (w', None)" by simp
    from Cons.IH [OF this] ex None show ?thesis by simp
  next
    case (Some e)
    with ex Cons.prems show ?thesis by simp
  qed
qed

lemma run_raise_at:
  assumes "k < length c" "run lib 0 (take k c) w = (w', None)" "snd (exec lib k (c ! k) w') = Some e"
  shows "run lib 0 c w = (w', Some e)"
proof -
  have c: "c = take k c @ c ! k # drop (Suc k) c"
    using assms(1) by (simp add: id_take_nth_drop [symmetric])
  obtain w'' where ex: "exec lib k (c ! k) w' = (w'', Some e)"
    using assms(3) by (cases "exec lib k (c ! k) w'") auto
  then have "w'' = w'" by (rule exec_raise_keeps_world)
  with ex have ex': "exec lib k (c ! k) w' = (w', Some e)" by simp
  have "run lib 0 (take k c @ c ! k # drop (Suc k) c) w = (w', Some e)"
    using run_append_ok [OF assms(2), of "c ! k # drop (Suc k) c"] assms(1) ex'
    by (simp add: min_def)
  with c show ?thesis by simp
qed

lemma forward_conv1_raises:
  "layer_shape (conv1 Net) x = Inl e \<Longrightarrow> forward_shape Net x = Inl e"
  by (simp add: forward_shape_def)

text \<open>
  C6, as the notebooks have it. Whatever a cell's statements are, when one of them raises
  the cell ends there with that exception and the world the earlier statements left: no
  later statement runs. So the loading cell on a disk without \<open>data.csv\<close> ends with
  \<open>FileNotFoundError\<close> before \<open>df.head()\<close> is shown, and an error that \<open>conv1\<close>
  raises on a mismatched shape is what \<open>forward\<close> raises. A warning is not an
  exception: when \<open>clf.fit\<close> returns after warnings, they are shown, the cell goes on
  and echoes the value of the call.
\<close>

theorem exceptions_end_the_cell:
  "(k < length c \<and> run lib 0 (take k c) w = (w', None) \<and> snd (exec lib k (c ! k) w') = Some e
      \<longrightarrow> run_cell lib c w = (w', Some e))
   \<and> (''data.csv'' \<notin> files w \<and> (\<exists>ws. lib 0 = Returns ws)
      \<longrightarrow> (\<exists>w'. run_cell lib tab_load w = (w', Some FileNotFoundError) \<and> files w' = files w
             \<and> Display \<notin> set (shown w') - set (shown w)))
   \<and> (layer_shape (conv1 Net) x = Inl e' \<longrightarrow> forward_shape Net x = Inl e')
   \<and> (lib 0 = Returns ws
      \<longrightarrow> run_cell lib tab_fit w = (w \<lparr> shown := shown w @ map Stderr ws @ [Display] \<rparr>, None))"
proof (intro conjI impI)
  assume "k < length c \<and> run lib 0 (take k c) w = (w', None) \<and> snd (exec lib k (c ! k) w') = Some e"
  then show "run_cell lib c w = (w', Some e)"
    unfolding run_cell_def using run_raise_at by blast
next
  assume a: "''data.csv'' \<notin> files w \<and> (\<exists>ws. lib 0 = Returns ws)"
  then obtain ws where ws: "lib 0 = Returns ws" by blast
  have "run_cell lib tab_load w = (w \<lparr> shown := shown w @ map Stderr ws \<rparr>, Some FileNotFoundError)"
    using a ws by (simp add: run_cell_def tab_load_def exec_def)
  then show "\<exists>w'. run_cell lib tab_load w = (w', Some FileNotFoundError) \<and> files w' = files w
             \<and> Display \<notin> set (shown w') - set (shown w)"
    by auto
next
  assume "layer_shape (conv1 Net) x = Inl e'"
  then show "forward_shape Net x = Inl e'" by (rule forward_conv1_raises)
next
  assume "lib 0 = Returns ws"
  then show "run_cell lib tab_fit w = (w \<lparr> shown := shown w @ map Stderr ws @ [Display] \<rparr>, None)"
    by (simp add: run_cell_def tab_fit_def exec_def show_output_def)
qed

theorem exceptions_end_the_cell_witness:
  "run_cell quiet_library tab_load empty_disk = (empty_disk, Some FileNotFoundError)
   \<and> forward_shape Net [4, 1, 32, 32] = Inl RuntimeError
   \<and> run_cell quiet_library tab_fit empty_disk = (\<lparr> files = {}, shown = [Display] \<rparr>, None)"
proof -
  have k: "1 < length tab_load" by (simp add: tab_load_def)
  have pre: "run quiet_library 0 (take 1 tab_load) empty_disk = (empty_disk, None)"
    by (simp add: tab_load_def exec_def quiet_library_def empty_disk_def)
  have ex: "snd (exec quiet_library 1 (tab_load ! 1) empty_disk) = Some FileNotFoundError"
    by (simp add: tab_load_def exec_def empty_disk_def)
  have sh: "layer_shape (conv1 Net) [4, 1, 32, 32] = Inl RuntimeError"
    by (simp add: Net_def)
  have q: "quiet_library 0 = Returns []" by (simp add: quiet_library_def)
  from exceptions_end_the_cell [where lib = quiet_library and c = tab_load and k = 1
      and w = empty_disk and w' = empty_disk and e = FileNotFoundError] k pre ex
  have a: "run_cell quiet_library tab_load empty_disk = (empty_disk, Some FileNotFoundError)"
    by blast
  from exceptions_end_the_cell [where x = "[4, 1, 32, 32]" and e' = RuntimeError] sh
  have b: "forward_shape Net [4, 1, 32, 32] = Inl RuntimeError" by blast
  from exceptions_end_the_cell [where lib = quiet_library and ws = "[]" and w = empty_disk] q
  have "run_cell quiet_library tab_fit empty_disk
          = (empty_disk \<lparr> shown := shown empty_disk @ map Stderr [] @ [Display] \<rparr>, None)"
    by blast
  then have c: "run_cell quiet_library tab_fit empty_disk = (\<lparr> files = {}, shown = [Display] \<rparr>, None)"
    by (simp add: empty_disk_def)
  from a b c show ?thesis by blast
qed

text \<open>
  C6, as the claim states it, fails for a convergence warning: \<open>clf.fit\<close> issues it and
  returns, and the cell runs to its end without an exception.
\<close>

theorem convergence_warning_does_not_end_the_cell:
  "run_cell fit_warns tab_fit empty_disk
     = (\<lparr> files = {}, shown = [Stderr ConvergenceWarning, Display] \<rparr>, None)"
  by (simp add: run_cell_def tab_fit_def exec_def show_output_def fit_warns_def empty_disk_def)

end
